theory Spec2Isabelle
  imports Complex_Main
begin

section \<open>Strings\<close>

text \<open>
  A Python \<open>str\<close> is modelled as a \<open>string\<close>, one \<open>char\<close> per code point (code points
  below 256). \<open>None\<close> and a missing key of a stored document are both the value \<open>None\<close>
  of an option type, as \<open>dict.get\<close> returns for them.
\<close>

definition isspace :: "char \<Rightarrow> bool" where
  \<comment> \<open>The characters \<open>str.strip()\<close> removes and the regular expression \<open>\s\<close> matches.\<close>
  "isspace c = (c \<in> set [CHR 0x09, CHR 0x0A, CHR 0x0B, CHR 0x0C, CHR 0x0D,
                          CHR 0x1C, CHR 0x1D, CHR 0x1E, CHR 0x1F, CHR 0x20,
                          CHR 0x85, CHR 0xA0])"

definition isdigit :: "char \<Rightarrow> bool" where
  "isdigit c = (c \<in> set ''0123456789'')"

definition strip :: "string \<Rightarrow> string" where
  "strip s = rev (dropWhile isspace (rev (dropWhile isspace s)))"

definition replace_char :: "char \<Rightarrow> string \<Rightarrow> string" where
  \<comment> \<open>\<open>n.replace(ch, "")\<close> for a one-character \<open>ch\<close>.\<close>
  "replace_char ch n = filter (\<lambda>c. c \<noteq> ch) n"

definition startswith :: "string \<Rightarrow> string \<Rightarrow> bool" where
  "startswith s p = (take (length p) s = p)"

section \<open>ContactNormalizer: \<open>normalize_e164\<close>\<close>

definition separators :: "char list" where
  "separators = [CHR '' '', CHR ''-'', CHR ''('', CHR '')'']"

definition normalize_e164 :: "string \<Rightarrow> string option \<Rightarrow> string option" where
  \<comment> \<open>The first argument is the module constant \<open>DEFAULT_COUNTRY_CODE\<close>.\<close>
  "normalize_e164 cc number =
     (case number of
        None \<Rightarrow> None
      | Some s \<Rightarrow>
          if s = [] then Some s
          else
            let n = strip s;
                n = foldl (\<lambda>n ch. replace_char ch n) n separators
            in if startswith n ''+'' then Some n else Some (cc @ n))"

section \<open>Instants: the standard library's \<open>datetime\<close>\<close>

text \<open>
  The functions of this section are not code of the repository: they model the Python
  standard library as far as \<open>try_parse_datetime\<close> and \<open>process_due_once\<close> use it
  (\<open>datetime.fromisoformat\<close>, \<open>datetime.strptime\<close> with the one format the source
  passes, subtraction of two instants and \<open>timedelta.total_seconds\<close>), following the
  reference implementation in CPython's \<open>Lib/datetime.py\<close> and \<open>Lib/_strptime.py\<close>.
\<close>

record datetime =
  year :: nat
  month :: nat
  day :: nat
  hour :: nat
  minute :: nat
  second :: nat
  microsecond :: nat
  tzinfo :: "int option"  \<comment> \<open>the UTC offset in microseconds; \<open>None\<close> for a naive instant\<close>

definition is_leap :: "nat \<Rightarrow> bool" where
  "is_leap y = (y mod 4 = 0 \<and> (y mod 100 \<noteq> 0 \<or> y mod 400 = 0))"

definition days_in_month :: "nat \<Rightarrow> nat \<Rightarrow> nat" where
  "days_in_month y m =
     (if m = 2 \<and> is_leap y then 29
      else [0, 31, 28, 31, 30, 31, 30, 31, 31, 30, 31, 30, 31] ! m)"

definition days_before_year :: "nat \<Rightarrow> int" where
  "days_before_year y' =
     (let y = int y' - 1 in y * 365 + y div 4 - y div 100 + y div 400)"

definition days_before_month :: "nat \<Rightarrow> nat \<Rightarrow> int" where
  "days_before_month y m =
     int ([0, 0, 31, 59, 90, 120, 151, 181, 212, 243, 273, 304, 334] ! m)
       + (if m > 2 \<and> is_leap y then 1 else 0)"

definition ymd2ord :: "nat \<Rightarrow> nat \<Rightarrow> nat \<Rightarrow> int" where
  "ymd2ord y m d = days_before_year y + days_before_month y m + int d"

definition new_datetime ::
  "nat \<Rightarrow> nat \<Rightarrow> nat \<Rightarrow> nat \<Rightarrow> nat \<Rightarrow> nat \<Rightarrow> nat \<Rightarrow> int option \<Rightarrow> datetime option" where
  \<comment> \<open>The constructor; \<open>None\<close> is its \<open>ValueError\<close> for a field out of range.\<close>
  "new_datetime y m d hh mm ss us tz =
     (if 1 \<le> y \<and> y \<le> 9999 \<and> 1 \<le> m \<and> m \<le> 12 \<and> 1 \<le> d \<and> d \<le> days_in_month y m
         \<and> hh < 24 \<and> mm < 60 \<and> ss < 60 \<and> us < 1000000
         \<and> (case tz of None \<Rightarrow> True | Some off \<Rightarrow> \<bar>off\<bar> < 86400000000)
      then Some \<lparr>year = y, month = m, day = d, hour = hh, minute = mm, second = ss,
                 microsecond = us, tzinfo = tz\<rparr>
      else None)"

definition digit_val :: "char \<Rightarrow> nat" where
  "digit_val c = of_char c - 48"

definition parse_digits :: "nat \<Rightarrow> string \<Rightarrow> nat option" where
  \<comment> \<open>Exactly \<open>n\<close> decimal digits.\<close>
  "parse_digits n s =
     (if length s = n \<and> n > 0 \<and> list_all isdigit s
      then Some (foldl (\<lambda>a c. 10 * a + digit_val c) 0 s) else None)"

definition digits_at :: "string \<Rightarrow> nat \<Rightarrow> nat \<Rightarrow> nat option" where
  "digits_at s i n = parse_digits n (take n (drop i s))"

definition parse_hh_mm_ss_ff :: "string \<Rightarrow> (nat \<times> nat \<times> nat \<times> nat) option" where
  \<comment> \<open>\<open>HH[:MM[:SS[.fff[fff]]]]\<close>\<close>
  "parse_hh_mm_ss_ff s =
     (let n = length s in
      if n \<notin> set [2, 5, 8, 12, 15] then None
      else if n \<ge> 5 \<and> s ! 2 \<noteq> CHR '':'' then None
      else if n \<ge> 8 \<and> s ! 5 \<noteq> CHR '':'' then None
      else if n \<ge> 12 \<and> s ! 8 \<noteq> CHR ''.'' then None
      else
        case (digits_at s 0 2,
              if n \<ge> 5 then digits_at s 3 2 else Some 0,
              if n \<ge> 8 then digits_at s 6 2 else Some 0,
              if n = 12 then map_option (\<lambda>f. f * 1000) (digits_at s 9 3)
              else if n = 15 then digits_at s 9 6 else Some 0) of
          (Some hh, Some mm, Some ss, Some us) \<Rightarrow> Some (hh, mm, ss, us)
        | _ \<Rightarrow> None)"

definition is_sign :: "char \<Rightarrow> bool" where
  "is_sign c = (c = CHR ''+'' \<or> c = CHR ''-'')"

definition parse_isoformat_time :: "string \<Rightarrow> ((nat \<times> nat \<times> nat \<times> nat) \<times> int option) option" where
  \<comment> \<open>\<open>HH[:MM[:SS[.fff[fff]]]][+HH:MM[:SS[.ffffff]]]\<close>\<close>
  "parse_isoformat_time tstr =
     (let timestr = takeWhile (\<lambda>c. \<not> is_sign c) tstr;
          rest = dropWhile (\<lambda>c. \<not> is_sign c) tstr
      in case parse_hh_mm_ss_ff timestr of
           None \<Rightarrow> None
         | Some comps \<Rightarrow>
             (case rest of
                [] \<Rightarrow> Some (comps, None)
              | sc # tzstr \<Rightarrow>
                  if length tzstr \<notin> set [5, 8, 15] then None
                  else
                    (case parse_hh_mm_ss_ff tzstr of
                       None \<Rightarrow> None
                     | Some (h, m, s, us) \<Rightarrow>
                         Some (comps,
                               Some ((if sc = CHR ''-'' then - 1 else 1)
                                     * (((int h * 3600 + int m * 60 + int s) * 1000000) + int us))))))"

definition fromisoformat :: "string \<Rightarrow> datetime option" where
  \<comment> \<open>\<open>datetime.fromisoformat\<close> with the grammar of Python 3.7 to 3.10,
      \<open>YYYY-MM-DD[*HH[:MM[:SS[.fff[fff]]]][+HH:MM[:SS[.ffffff]]]]\<close>; \<open>None\<close> is its
      \<open>ValueError\<close>. The repository names no version of Python. From version 3.11 on the
      function accepts further forms of ISO 8601, which this definition sends to \<open>None\<close>:
      a time zone \<open>Z\<close> (\<open>2024-05-01 09:30Z\<close>), dates and times without separators
      (\<open>20240501 0930\<close>), week dates, and fractions of other lengths or after a comma.
      All of them begin with the four digits of the year as well.\<close>
  "fromisoformat s =
     (if length s < 10 \<or> s ! 4 \<noteq> CHR ''-'' \<or> s ! 7 \<noteq> CHR ''-'' then None
      else
        case (digits_at s 0 4, digits_at s 5 2, digits_at s 8 2) of
          (Some y, Some m, Some d) \<Rightarrow>
            if length s = 10 then new_datetime y m d 0 0 0 0 None
            else
              (case parse_isoformat_time (drop 11 s) of
                 None \<Rightarrow> None
               | Some ((hh, mm, ss, us), tz) \<Rightarrow> new_datetime y m d hh mm ss us tz)
        | _ \<Rightarrow> None)"

definition split_on :: "char \<Rightarrow> string \<Rightarrow> (string \<times> string) option" where
  \<comment> \<open>The text before the first \<open>c\<close> and the text after it.\<close>
  "split_on c s =
     (if c \<in> set s
      then Some (takeWhile (\<lambda>x. x \<noteq> c) s, tl (dropWhile (\<lambda>x. x \<noteq> c) s))
      else None)"

definition strp_field :: "nat \<Rightarrow> nat \<Rightarrow> string \<Rightarrow> nat option" where
  \<comment> \<open>One or two digits with a value between \<open>lo\<close> and \<open>hi\<close>.\<close>
  "strp_field lo hi tok =
     (case (if length tok = 1 then parse_digits 1 tok else parse_digits 2 tok) of
        None \<Rightarrow> None
      | Some v \<Rightarrow> if lo \<le> v \<and> v \<le> hi then Some v else None)"

definition strp_day :: "string \<Rightarrow> nat option" where
  \<comment> \<open>\<open>%d\<close> is \<open>3[0-1]|[1-2]\d|0[1-9]|[1-9]| [1-9]\<close>.\<close>
  "strp_day tok =
     (if length tok = 2 \<and> hd tok = CHR '' '' then strp_field 1 9 (tl tok)
      else strp_field 1 31 tok)"

definition strptime_dmy_hm :: "string \<Rightarrow> datetime option" where
  \<comment> \<open>\<open>datetime.strptime(s, "%d/%m/%Y %H:%M")\<close>: the whole of \<open>s\<close> has to match
      \<open>%d/%m/%Y\s+%H:%M\<close>, with \<open>%m\<close> = \<open>1[0-2]|0[1-9]|[1-9]\<close>, \<open>%Y\<close> = \<open>\d\d\d\d\<close>,
      \<open>%H\<close> = \<open>2[0-3]|[0-1]\d|\d\<close> and \<open>%M\<close> = \<open>[0-5]\d|\d\<close>; \<open>None\<close> is its
      \<open>ValueError\<close>.\<close>
  "strptime_dmy_hm s =
     (case split_on (CHR ''/'') s of
        None \<Rightarrow> None
      | Some (dtok, r1) \<Rightarrow>
         (case split_on (CHR ''/'') r1 of
            None \<Rightarrow> None
          | Some (mtok, r2) \<Rightarrow>
             (let ytok = take 4 r2;
                  r3 = drop 4 r2;
                  ws = takeWhile isspace r3;
                  r4 = dropWhile isspace r3
              in if ws = [] then None
                 else
                   (case split_on (CHR '':'') r4 of
                      None \<Rightarrow> None
                    | Some (htok, mintok) \<Rightarrow>
                       (case (strp_day dtok, strp_field 1 12 mtok, parse_digits 4 ytok,
                              strp_field 0 23 htok, strp_field 0 59 mintok) of
                          (Some d, Some m, Some y, Some hh, Some mm) \<Rightarrow>
                            new_datetime y m d hh mm 0 0 None
                        | _ \<Rightarrow> None)))))"

definition to_microseconds :: "datetime \<Rightarrow> int" where
  \<comment> \<open>Microseconds since the start of day 0 of the proleptic Gregorian calendar, the
      offset not applied.\<close>
  "to_microseconds dt =
     ((ymd2ord (year dt) (month dt) (day dt) * 86400
        + int (hour dt) * 3600 + int (minute dt) * 60 + int (second dt)) * 1000000)
     + int (microsecond dt)"

text \<open>
  The exceptions of the model: the \<open>TypeError\<close> of subtracting instants, the
  \<open>RuntimeError\<close> of \<open>call_phone\<close>, the store's error in \<open>find\<close> and in \<open>update_one\<close>,
  and the provider's error in \<open>calls.create\<close>.
\<close>

datatype exn = TypeError | RuntimeError | FindError | UpdateError | ProviderError

definition datetime_sub :: "datetime \<Rightarrow> datetime \<Rightarrow> exn + int" where
  \<comment> \<open>\<open>a - b\<close>, as the \<open>timedelta\<close>'s number of microseconds. Python refuses to subtract
      a naive and an aware instant.\<close>
  "datetime_sub a b =
     (case (tzinfo a, tzinfo b) of
        (None, None) \<Rightarrow> Inr (to_microseconds a - to_microseconds b)
      | (Some oa, Some ob) \<Rightarrow> Inr ((to_microseconds a - oa) - (to_microseconds b - ob))
      | _ \<Rightarrow> Inl TypeError)"

section \<open>DateTimeResolver: \<open>try_parse_datetime\<close>\<close>

fun try_candidates :: "string list \<Rightarrow> datetime option" where
  "try_candidates [] = None"
| "try_candidates (s # ss) =
     (case fromisoformat s of
        Some dt \<Rightarrow> Some dt
      | None \<Rightarrow>
          (case strptime_dmy_hm s of
             Some dt \<Rightarrow> Some dt
           | None \<Rightarrow> try_candidates ss))"

definition try_parse_datetime :: "string option \<Rightarrow> string option \<Rightarrow> datetime option" where
  "try_parse_datetime date_str time_str =
     (case (date_str, time_str) of
        (Some d, Some t) \<Rightarrow>
          if d = [] \<or> t = [] then None
          else try_candidates [d @ '' '' @ t, d @ ''T'' @ t]
      | _ \<Rightarrow> None)"

section \<open>The reminder store\<close>

text \<open>
  Stored documents as \<open>process_due_once\<close> and \<open>mark_called\<close> read them. \<open>calledAt\<close> is
  null or a timestamp, and a timestamp is always truthy in Python, so the test
  \<open>if r.get("calledAt")\<close> is the test for a value other than \<open>None\<close>. The collection is
  the list of its documents in the order the database returns them.
\<close>

record reminder =
  date :: "string option"
  time :: "string option"
  message :: "string option"
  calledAt :: "datetime option"
  createdAt :: "string option"

record user =
  userId :: "string option"
  phoneNumber :: "string option"
  phoneRemindersEnabled :: bool
  reminders :: "reminder list"

type_synonym store = "user list"

text \<open>A position is the index of a user document and the index of a reminder in its array.\<close>

type_synonym pos = "nat \<times> nat"

record config =
  DEFAULT_COUNTRY_CODE :: string
  WINDOW_SECONDS :: int
  db_configured :: bool      \<comment> \<open>\<open>db is not None\<close>\<close>
  twilio_configured :: bool  \<comment> \<open>\<open>twilio_client and TWILIO_PHONE\<close>\<close>

text \<open>
  What the outside world answers during one scan pass: the clock, and for the reminder at
  each position whether the provider call made for it raises, whether the store write made
  for it raises, and the clock at that write. A pass visits a position at most once.
\<close>

record world =
  clock :: datetime
  find_raises :: bool
  call_raises :: "pos \<Rightarrow> bool"
  update_raises :: "pos \<Rightarrow> bool"
  utc_clock :: "pos \<Rightarrow> datetime"

definition datetime_now :: "world \<Rightarrow> datetime" where
  \<comment> \<open>\<open>datetime.now()\<close> is naive.\<close>
  "datetime_now w = (clock w)\<lparr>tzinfo := None\<rparr>"

definition datetime_now_utc :: "world \<Rightarrow> pos \<Rightarrow> datetime" where
  \<comment> \<open>\<open>datetime.now(timezone.utc)\<close>\<close>
  "datetime_now_utc w p = (utc_clock w p)\<lparr>tzinfo := Some 0\<rparr>"

text \<open>
  \<open>timedelta.total_seconds\<close> divides the number of microseconds by \<open>10 ** 6\<close> and returns
  the quotient as a \<open>float\<close>, the IEEE 754 binary64 number nearest to it, a tie going to
  the even significand. A number \<open>x\<close> with \<open>2 ^ e \<le> \<bar>x\<bar> < 2 ^ (e + 1)\<close> lies between
  neighbours \<open>2 ^ (e - 52)\<close> apart. Overflow and subnormal numbers are left out: the
  quotient for two instants between \<open>datetime.min\<close> and \<open>datetime.max\<close> is 0 or lies
  between a millionth and \<open>3.2e11\<close> in magnitude. The comparisons of line 142 are
  between this float and the integers 0 and \<open>WINDOW_SECONDS\<close>, which Python compares by
  value.
\<close>

definition round_half_even :: "real \<Rightarrow> int" where
  "round_half_even y =
     (let f = \<lfloor>y\<rfloor> in
      if y - real_of_int f < 1 / 2 then f
      else if y - real_of_int f > 1 / 2 then f + 1
      else if even f then f else f + 1)"

definition binade :: "real \<Rightarrow> int" where
  \<comment> \<open>The exponent \<open>e\<close> with \<open>2 ^ e \<le> \<bar>x\<bar> < 2 ^ (e + 1)\<close>.\<close>
  "binade x = \<lfloor>log 2 \<bar>x\<bar>\<rfloor>"

definition ulp :: "real \<Rightarrow> real" where
  \<comment> \<open>The distance between the floats around \<open>x\<close>.\<close>
  "ulp x = 2 powr (real_of_int (binade x - 52))"

definition nearest_float :: "real \<Rightarrow> real" where
  "nearest_float x =
     (if x = 0 then 0 else ulp x * real_of_int (round_half_even (x / ulp x)))"

definition total_seconds :: "int \<Rightarrow> real" where
  \<comment> \<open>Of a \<open>timedelta\<close> given in microseconds.\<close>
  "total_seconds us = nearest_float (real_of_int us / 1000000)"

definition truthy :: "string option \<Rightarrow> bool" where
  "truthy v = (case v of None \<Rightarrow> False | Some s \<Rightarrow> s \<noteq> [])"

definition py_str :: "string option \<Rightarrow> string" where
  \<comment> \<open>How an f-string prints the value.\<close>
  "py_str v = (case v of None \<Rightarrow> ''None'' | Some s \<Rightarrow> s)"

section \<open>NotificationDispatcher: \<open>call_phone\<close>\<close>

definition call_phone :: "config \<Rightarrow> world \<Rightarrow> pos \<Rightarrow> string option \<Rightarrow> string \<Rightarrow> exn + unit" where
  "call_phone cfg w p to_number msg =
     (if \<not> twilio_configured cfg then Inl RuntimeError
      else if call_raises w p then Inl ProviderError
      else Inr ())"

section \<open>AttemptTracker: \<open>mark_called\<close>\<close>

fun update_first :: "('a \<Rightarrow> bool) \<Rightarrow> ('a \<Rightarrow> 'a) \<Rightarrow> 'a list \<Rightarrow> 'a list" where
  "update_first P f [] = []"
| "update_first P f (x # xs) = (if P x then f x # xs else x # update_first P f xs)"

definition elem_filter :: "reminder \<Rightarrow> reminder \<Rightarrow> bool" where
  \<comment> \<open>The condition \<open>filter_query\<close> puts on an element of the \<open>reminders\<close> array.\<close>
  "elem_filter r e =
     (if truthy (createdAt r) then createdAt e = createdAt r
      else date e = date r \<and> time e = time r \<and> message e = message r \<and> calledAt e = None)"

definition doc_filter :: "string option \<Rightarrow> reminder \<Rightarrow> user \<Rightarrow> bool" where
  "doc_filter user_id r u = (userId u = user_id \<and> list_ex (elem_filter r) (reminders u))"

definition update_one :: "string option \<Rightarrow> reminder \<Rightarrow> datetime \<Rightarrow> store \<Rightarrow> store" where
  \<comment> \<open>\<open>db.users.update_one(filter_query, {"$set": {"reminders.$.calledAt": t}})\<close>: the first
      document the filter matches, and in it the first array element the filter matches.\<close>
  "update_one user_id r t st =
     update_first (doc_filter user_id r)
       (\<lambda>u. u\<lparr>reminders := update_first (elem_filter r) (\<lambda>e. e\<lparr>calledAt := Some t\<rparr>) (reminders u)\<rparr>)
       st"

definition mark_called :: "world \<Rightarrow> pos \<Rightarrow> string option \<Rightarrow> reminder \<Rightarrow> store \<Rightarrow> exn + store" where
  "mark_called w p user_id r st =
     (if update_raises w p then Inl UpdateError
      else Inr (update_one user_id r (datetime_now_utc w p) st))"

section \<open>DueDetector and ScheduleRunner: \<open>process_due_once\<close>, \<open>scheduler_loop\<close>\<close>

text \<open>
  What happened to one reminder in a pass, by the branch \<open>process_due_once\<close> took for it:
  skipped at line 137, skipped at line 140, the subtraction of line 141 raised, outside
  the window, \<open>call_phone\<close> raised, \<open>mark_called\<close> raised after the call, or both done.
  The last three carry the number and the message given to \<open>call_phone\<close>.
\<close>

datatype outcome =
    AlreadyCalled
  | Unparseable
  | Raised exn
  | NotDue
  | CallFailed "string option" string exn
  | MarkFailed "string option" string exn
  | Called "string option" string

type_synonym trace = "(pos \<times> outcome) list"

definition process_reminder ::
  "config \<Rightarrow> world \<Rightarrow> string option \<Rightarrow> string option \<Rightarrow> pos \<Rightarrow> reminder \<Rightarrow> store \<Rightarrow> store \<times> outcome" where
  \<comment> \<open>The body of the inner loop, lines 136 to 149.\<close>
  "process_reminder cfg w uid num p r st =
     (if calledAt r \<noteq> None then (st, AlreadyCalled)
      else
        case try_parse_datetime (date r) (time r) of
          None \<Rightarrow> (st, Unparseable)
        | Some dt \<Rightarrow>
            (case datetime_sub (datetime_now w) dt of
               Inl e \<Rightarrow> (st, Raised e)
             | Inr td \<Rightarrow>
                 let diff = total_seconds td in
                 if 0 \<le> diff \<and> diff \<le> real_of_int (WINDOW_SECONDS cfg) then
                   (let msg = ''Reminder: '' @ py_str (message r) @ '' at '' @ py_str (time r)
                                @ '' on '' @ py_str (date r) @ ''.'';
                        to_num = normalize_e164 (DEFAULT_COUNTRY_CODE cfg) num
                    in case call_phone cfg w p to_num msg of
                         Inl e \<Rightarrow> (st, CallFailed to_num msg e)
                       | Inr _ \<Rightarrow>
                           (case mark_called w p uid r st of
                              Inl e \<Rightarrow> (st, MarkFailed to_num msg e)
                            | Inr st' \<Rightarrow> (st', Called to_num msg)))
                 else (st, NotDue)))"

fun scan_reminders ::
  "config \<Rightarrow> world \<Rightarrow> string option \<Rightarrow> string option \<Rightarrow> nat \<Rightarrow> nat \<Rightarrow> reminder list \<Rightarrow> store
     \<Rightarrow> store \<times> trace \<times> exn option" where
  "scan_reminders cfg w uid num ui ri [] st = (st, [], None)"
| "scan_reminders cfg w uid num ui ri (r # rs) st =
     (case process_reminder cfg w uid num (ui, ri) r st of
        (st', Raised e) \<Rightarrow> (st', [((ui, ri), Raised e)], Some e)
      | (st', oc) \<Rightarrow>
          (case scan_reminders cfg w uid num ui (Suc ri) rs st' of
             (st'', tr, e) \<Rightarrow> (st'', ((ui, ri), oc) # tr, e)))"

fun scan_users :: "config \<Rightarrow> world \<Rightarrow> (nat \<times> user) list \<Rightarrow> store \<Rightarrow> store \<times> trace \<times> exn option" where
  "scan_users cfg w [] st = (st, [], None)"
| "scan_users cfg w ((ui, u) # us) st =
     (case scan_reminders cfg w (userId u) (phoneNumber u) ui 0 (reminders u) st of
        (st', tr, Some e) \<Rightarrow> (st', tr, Some e)
      | (st', tr, None) \<Rightarrow>
          (case scan_users cfg w us st' of
             (st'', tr', e) \<Rightarrow> (st'', tr @ tr', e)))"

definition py_dict :: "('k \<times> 'v) list \<Rightarrow> ('k \<rightharpoonup> 'v)" where
  \<comment> \<open>A dict display: of two entries with the same key the later one stays.\<close>
  "py_dict kvs = map_of (rev kvs)"

definition phone_condition :: "(string \<times> string option) list" where
  \<comment> \<open>\<open>{"$ne": None, "$ne": ""}\<close>, as written at line 127.\<close>
  "phone_condition = [(''$ne'', None), (''$ne'', Some [])]"

definition ne_matches :: "(string \<rightharpoonup> string option) \<Rightarrow> string option \<Rightarrow> bool" where
  \<comment> \<open>The operator \<open>$ne\<close>; a missing field compares as null.\<close>
  "ne_matches cond v = (case cond ''$ne'' of None \<Rightarrow> True | Some x \<Rightarrow> v \<noteq> x)"

definition find_filter :: "user \<Rightarrow> bool" where
  "find_filter u = (phoneRemindersEnabled u \<and> ne_matches (py_dict phone_condition) (phoneNumber u))"

definition find_users :: "store \<Rightarrow> (nat \<times> user) list" where
  "find_users st = filter (\<lambda>(ui, u). find_filter u) (zip [0..<length st] st)"

definition process_due_once :: "config \<Rightarrow> world \<Rightarrow> store \<Rightarrow> store \<times> trace \<times> exn option" where
  "process_due_once cfg w st =
     (if \<not> db_configured cfg then (st, [], None)
      else if \<not> twilio_configured cfg then (st, [], None)
      else if find_raises w then (st, [], Some FindError)
      else scan_users cfg w (find_users st) st)"

text \<open>
  \<open>scheduler_loop\<close> never returns. Its first \<open>n\<close> iterations are modelled, for every \<open>n\<close>:
  one element of the list \<open>ws\<close> for each tick. The result lists, for each pass, the store
  it left, its trace and the exception it raised, which the loop prints and drops.
\<close>

fun scheduler_loop :: "config \<Rightarrow> world list \<Rightarrow> store \<Rightarrow> (store \<times> trace \<times> exn option) list" where
  "scheduler_loop cfg [] st = []"
| "scheduler_loop cfg (w # ws) st =
     (case process_due_once cfg w st of
        (st', tr, e) \<Rightarrow> (st', tr, e) # scheduler_loop cfg ws st')"

definition run_once :: "config \<Rightarrow> world \<Rightarrow> store \<Rightarrow> (store \<times> trace) \<times> bool" where
  \<comment> \<open>\<open>POST /run-once\<close>; the flag is \<open>success\<close>.\<close>
  "run_once cfg w st =
     (case process_due_once cfg w st of (st', tr, e) \<Rightarrow> ((st', tr), e = None))"

section \<open>Notions of the specification\<close>

text \<open>
  The date and time resolution in the words of the specification: three attempts in the
  order given there, the first that parses wins.
\<close>

fun first_some :: "'a option list \<Rightarrow> 'a option" where
  "first_some [] = None"
| "first_some (None # xs) = first_some xs"
| "first_some (Some x # xs) = Some x"

definition resolve_spec :: "string option \<Rightarrow> string option \<Rightarrow> datetime option" where
  "resolve_spec date_str time_str =
     (case (date_str, time_str) of
        (Some d, Some t) \<Rightarrow>
          if d = [] \<or> t = [] then None
          else first_some [fromisoformat (d @ '' '' @ t),
                           fromisoformat (d @ ''T'' @ t),
                           strptime_dmy_hm (d @ '' '' @ t)]
      | _ \<Rightarrow> None)"

definition strptime_char :: "char \<Rightarrow> bool" where
  \<comment> \<open>The characters a text matching \<open>%d/%m/%Y %H:%M\<close> is made of.\<close>
  "strptime_char c = (isdigit c \<or> isspace c \<or> c = CHR ''/'' \<or> c = CHR '':'')"

text \<open>
  The matching of the mark-called write in the words of the specification: by the owning
  user id and the creation identifier when the reminder carries one, else by the user id
  and the date, the time, the message and a null \<open>calledAt\<close>.
\<close>

definition matches_spec :: "string option \<Rightarrow> reminder \<Rightarrow> user \<Rightarrow> reminder \<Rightarrow> bool" where
  "matches_spec user_id r u e =
     (userId u = user_id \<and>
      (if truthy (createdAt r) then createdAt e = createdAt r
       else date e = date r \<and> time e = time r \<and> message e = message r \<and> calledAt e = None))"

section \<open>Notions used in the statements\<close>

definition rem_at :: "store \<Rightarrow> pos \<Rightarrow> reminder" where
  "rem_at st p = reminders (st ! fst p) ! snd p"

definition valid_pos :: "store \<Rightarrow> pos \<Rightarrow> bool" where
  "valid_pos st p = (fst p < length st \<and> snd p < length (reminders (st ! fst p)))"

definition selected :: "store \<Rightarrow> pos \<Rightarrow> bool" where
  \<comment> \<open>A reminder of a user document that the query of line 126 returns.\<close>
  "selected st p = (valid_pos st p \<and> find_filter (st ! fst p))"

definition outcome_of :: "config \<Rightarrow> world \<Rightarrow> string option \<Rightarrow> pos \<Rightarrow> reminder \<Rightarrow> outcome" where
  \<comment> \<open>The branch taken for a reminder; it depends neither on the store nor on the user id.\<close>
  "outcome_of cfg w num p r = snd (process_reminder cfg w None num p r [])"

definition invoked :: "outcome \<Rightarrow> bool" where
  \<comment> \<open>The provider's \<open>calls.create\<close> was reached.\<close>
  "invoked oc =
     (case oc of
        CallFailed _ _ e \<Rightarrow> e = ProviderError
      | MarkFailed _ _ _ \<Rightarrow> True
      | Called _ _ \<Rightarrow> True
      | _ \<Rightarrow> False)"


definition is_raised :: "outcome \<Rightarrow> bool" where
  "is_raised oc = (case oc of Raised _ \<Rightarrow> True | _ \<Rightarrow> False)"

text \<open>
  The plan of a pass: for every reminder of every document the query returns, in the
  order of the two loops, its position, the arguments \<open>mark_called\<close> would get and the
  branch taken. The pass carries the plan out up to the first exception.
\<close>

type_synonym entry = "pos \<times> string option \<times> reminder \<times> outcome"

fun plan_reminders ::
  "config \<Rightarrow> world \<Rightarrow> string option \<Rightarrow> string option \<Rightarrow> nat \<Rightarrow> nat \<Rightarrow> reminder list \<Rightarrow> entry list" where
  "plan_reminders cfg w uid num ui ri [] = []"
| "plan_reminders cfg w uid num ui ri (r # rs) =
     ((ui, ri), uid, r, outcome_of cfg w num (ui, ri) r)
       # plan_reminders cfg w uid num ui (Suc ri) rs"

definition plan_users :: "config \<Rightarrow> world \<Rightarrow> (nat \<times> user) list \<Rightarrow> entry list" where
  "plan_users cfg w us =
     concat (map (\<lambda>(ui, u). plan_reminders cfg w (userId u) (phoneNumber u) ui 0 (reminders u)) us)"

fun carried_out :: "entry list \<Rightarrow> entry list" where
  "carried_out [] = []"
| "carried_out ((p, uid, r, oc) # es) = (if is_raised oc then [(p, uid, r, oc)] else (p, uid, r, oc) # carried_out es)"

fun first_raised :: "entry list \<Rightarrow> exn option" where
  "first_raised [] = None"
| "first_raised ((p, uid, r, oc) # es) = (case oc of Raised e \<Rightarrow> Some e | _ \<Rightarrow> first_raised es)"

definition apply_entry :: "world \<Rightarrow> store \<Rightarrow> entry \<Rightarrow> store" where
  "apply_entry w st en =
     (case en of
        (p, uid, r, Called _ _) \<Rightarrow> update_one uid r (datetime_now_utc w p) st
      | _ \<Rightarrow> st)"

definition entry_event :: "entry \<Rightarrow> pos \<times> outcome" where
  "entry_event en = (case en of (p, uid, r, oc) \<Rightarrow> (p, oc))"

text \<open>
  The position \<open>update_one\<close> writes to: the first document the filter matches and, in it,
  the first array element the filter matches.
\<close>

fun first_index :: "('a \<Rightarrow> bool) \<Rightarrow> 'a list \<Rightarrow> nat option" where
  "first_index P [] = None"
| "first_index P (x # xs) = (if P x then Some 0 else map_option Suc (first_index P xs))"

definition mark_target :: "string option \<Rightarrow> reminder \<Rightarrow> store \<Rightarrow> pos option" where
  "mark_target user_id r st =
     (case first_index (doc_filter user_id r) st of
        None \<Rightarrow> None
      | Some ui \<Rightarrow> map_option (Pair ui) (first_index (elem_filter r) (reminders (st ! ui))))"

definition earlier :: "pos \<Rightarrow> pos \<Rightarrow> bool" where
  \<comment> \<open>The order of the documents, then the order of the array.\<close>
  "earlier q p = (fst q < fst p \<or> (fst q = fst p \<and> snd q < snd p))"

definition forget :: "store \<Rightarrow> store" where
  \<comment> \<open>The store with every \<open>calledAt\<close> blanked: what no write of this program changes.\<close>
  "forget st = map (\<lambda>u. u\<lparr>reminders := map (\<lambda>r. r\<lparr>calledAt := None\<rparr>) (reminders u)\<rparr>) st"



definition stores :: "config \<Rightarrow> world list \<Rightarrow> store \<Rightarrow> store list" where
  \<comment> \<open>The store before the first pass and after each pass.\<close>
  "stores cfg ws st = st # map fst (scheduler_loop cfg ws st)"

definition traces :: "config \<Rightarrow> world list \<Rightarrow> store \<Rightarrow> trace list" where
  "traces cfg ws st = map (\<lambda>(s, tr, e). tr) (scheduler_loop cfg ws st)"

definition dispatch_message :: "reminder \<Rightarrow> string" where
  \<comment> \<open>The message of line 144.\<close>
  "dispatch_message r =
     ''Reminder: '' @ py_str (message r) @ '' at '' @ py_str (time r) @ '' on ''
       @ py_str (date r) @ ''.''"

definition dispatch_outcome :: "config \<Rightarrow> world \<Rightarrow> string option \<Rightarrow> pos \<Rightarrow> reminder \<Rightarrow> outcome" where
  \<comment> \<open>What lines 143 to 149 come to for a due reminder.\<close>
  "dispatch_outcome cfg w num p r =
     (let to_num = normalize_e164 (DEFAULT_COUNTRY_CODE cfg) num; msg = dispatch_message r
      in if \<not> twilio_configured cfg then CallFailed to_num msg RuntimeError
         else if call_raises w p then CallFailed to_num msg ProviderError
         else if update_raises w p then MarkFailed to_num msg UpdateError
         else Called to_num msg)"

definition local_or_unparseable :: "reminder \<Rightarrow> bool" where
  \<comment> \<open>The date and time do not resolve to an instant with a UTC offset.\<close>
  "local_or_unparseable r =
     (case try_parse_datetime (date r) (time r) of None \<Rightarrow> True | Some dt \<Rightarrow> tzinfo dt = None)"

definition offset_free :: "store \<Rightarrow> bool" where
  \<comment> \<open>No stored reminder resolves to an instant with a UTC offset, which line 141 cannot
      subtract from the naive \<open>now\<close>.\<close>
  "offset_free st = list_all (\<lambda>u. list_all local_or_unparseable (reminders u)) st"







section \<open>Example data\<close>

definition default_config :: config where
  "default_config =
     \<lparr>DEFAULT_COUNTRY_CODE = ''+91'', WINDOW_SECONDS = 900, db_configured = True,
      twilio_configured = True\<rparr>"

definition instant :: "nat \<Rightarrow> nat \<Rightarrow> nat \<Rightarrow> nat \<Rightarrow> nat \<Rightarrow> nat \<Rightarrow> datetime" where
  "instant y m d hh mm ss =
     \<lparr>year = y, month = m, day = d, hour = hh, minute = mm, second = ss, microsecond = 0,
      tzinfo = None\<rparr>"

definition healthy_world :: "datetime \<Rightarrow> world" where
  \<comment> \<open>Nothing raises; the clock stands at \<open>t\<close>.\<close>
  "healthy_world t =
     \<lparr>clock = t, find_raises = False, call_raises = (\<lambda>p. False), update_raises = (\<lambda>p. False),
      utc_clock = (\<lambda>p. t)\<rparr>"

definition new_reminder :: "string \<Rightarrow> string \<Rightarrow> string \<Rightarrow> string option \<Rightarrow> reminder" where
  "new_reminder d t m c =
     \<lparr>date = Some d, time = Some t, message = Some m, calledAt = None, createdAt = c\<rparr>"

definition new_user :: "string \<Rightarrow> string option \<Rightarrow> reminder list \<Rightarrow> user" where
  "new_user uid num rs =
     \<lparr>userId = Some uid, phoneNumber = num, phoneRemindersEnabled = True, reminders = rs\<rparr>"

text \<open>
  The clock of the examples stands at \<open>T\<close> = 2024-05-01 09:30:00; the three reminders are
  scheduled at \<open>T - 1s\<close>, \<open>T - 901s\<close> and \<open>T + 1s\<close>.
\<close>

definition clock_T :: datetime where
  "clock_T = instant 2024 5 1 9 30 0"

definition due_reminder :: reminder where
  "due_reminder = new_reminder ''2024-05-01'' ''09:29:59'' ''pill'' None"

definition expired_reminder :: reminder where
  "expired_reminder = new_reminder ''2024-05-01'' ''09:14:59'' ''walk'' None"

definition future_reminder :: reminder where
  "future_reminder = new_reminder ''2024-05-01'' ''09:30:01'' ''tea'' None"


definition called_reminder :: reminder where
  \<comment> \<open>Scheduled at \<open>T - 1s\<close> and already stamped.\<close>
  "called_reminder = due_reminder\<lparr>calledAt := Some clock_T\<rparr>"

definition user_c :: user where
  "user_c = new_user ''u3'' (Some ''+1 555-123-4567'') [called_reminder]"


definition user_nophone :: user where
  \<comment> \<open>A user document without a phone number.\<close>
  "user_nophone = new_user ''u2'' None [due_reminder]"

definition user_separator :: user where
  \<comment> \<open>A user whose stored number consists of a hyphen.\<close>
  "user_separator = new_user ''u4'' (Some ''-'') [due_reminder]"

definition config_no_prefix :: config where
  \<comment> \<open>\<open>DEFAULT_COUNTRY_CODE\<close> set to the empty string in the environment.\<close>
  "config_no_prefix = default_config\<lparr>DEFAULT_COUNTRY_CODE := []\<rparr>"

definition user_empty :: user where
  \<comment> \<open>A user whose stored number is the empty string.\<close>
  "user_empty = new_user ''u5'' (Some []) [due_reminder]"

definition user_one :: user where
  "user_one = new_user ''u1'' (Some ''98765 43210'') [due_reminder]"


text \<open>Two reminders that differ in their creation identifier only.\<close>

definition first_twin :: reminder where
  "first_twin = new_reminder ''2024-05-01'' ''09:29:59'' ''pill'' (Some ''c1'')"

definition second_twin :: reminder where
  "second_twin = new_reminder ''2024-05-01'' ''09:29:59'' ''pill'' (Some ''c2'')"

definition user_twins :: user where
  "user_twins = new_user ''u6'' (Some ''98765 43210'') [first_twin, second_twin]"







section \<open>Properties of \<open>normalize_e164\<close>\<close>

lemma foldl_replace_separators:
  "foldl (\<lambda>n ch. replace_char ch n) n separators = filter (\<lambda>c. c \<notin> set separators) n"
  by (induction n) (auto simp: separators_def replace_char_def)

lemma in_set_strip: "x \<in> set (strip s) \<Longrightarrow> x \<in> set s"
  unfolding strip_def by (metis set_dropWhileD set_rev)

lemma set_strip: "set (strip s) \<subseteq> set s"
  using in_set_strip by (rule subsetI)

lemma strip_Cons_nonspace:
  assumes "\<not> isspace x"
  shows "\<exists>ys. strip (x # xs) = x # ys"
proof -
  have "dropWhile isspace (rev xs @ [x]) \<noteq> []"
    using assms by (simp add: dropWhile_append3)
  moreover have "\<exists>zs. rev xs @ [x] = zs @ dropWhile isspace (rev xs @ [x])"
    by (metis takeWhile_dropWhile_id)
  ultimately obtain zs ws where
    "rev xs @ [x] = zs @ ws" "ws = dropWhile isspace (rev xs @ [x])" "ws \<noteq> []"
    by blast
  then have "last ws = x" by (metis last_appendR last_snoc)
  then have "hd (rev ws) = x" using \<open>ws \<noteq> []\<close> by (simp add: hd_rev)
  then show ?thesis using assms \<open>ws = _\<close> \<open>ws \<noteq> []\<close>
    by (cases "rev ws") (auto simp: strip_def)
qed

lemma strip_id_iff:
  assumes "\<not> isspace x"
  shows "strip (x # xs) = x # xs \<longleftrightarrow> \<not> isspace (last (x # xs))"
proof -
  have a: "strip (x # xs) = rev (dropWhile isspace (rev (x # xs)))"
    using assms by (simp add: strip_def)
  show ?thesis
  proof
    assume "strip (x # xs) = x # xs"
    then have "dropWhile isspace (rev (x # xs)) = rev (x # xs)"
      using a by (metis rev_rev_ident)
    then have "\<not> isspace (hd (rev (x # xs)))"
      by (metis Nil_is_rev_conv hd_dropWhile list.distinct(1))
    then show "\<not> isspace (last (x # xs))" unfolding hd_rev by assumption
  next
    assume "\<not> isspace (last (x # xs))"
    then have "\<not> isspace (hd (rev (x # xs)))" unfolding hd_rev by assumption
    then have "dropWhile isspace (rev (x # xs)) = rev (x # xs)"
      by (cases "rev (x # xs)") auto
    then show "strip (x # xs) = x # xs" using a by simp
  qed
qed

lemma plus_not_space: "\<not> isspace (CHR ''+'')"
  by (simp add: isspace_def)

lemma startswith_plus: "startswith n ''+'' \<longleftrightarrow> (\<exists>ys. n = CHR ''+'' # ys)"
  by (cases n) (auto simp: startswith_def)

lemma normalize_plus:
  assumes "\<forall>c\<in>set ys. c \<notin> set separators"
  shows "normalize_e164 cc (Some (CHR ''+'' # ys)) = Some (strip (CHR ''+'' # ys))"
proof -
  obtain zs where z: "strip (CHR ''+'' # ys) = CHR ''+'' # zs"
    using strip_Cons_nonspace[OF plus_not_space] by blast
  have "set (strip (CHR ''+'' # ys)) \<subseteq> set (CHR ''+'' # ys)" by (rule set_strip)
  then have "\<forall>c\<in>set (strip (CHR ''+'' # ys)). c \<notin> set separators"
    using assms by (auto simp: separators_def)
  then have "filter (\<lambda>c. c \<notin> set separators) (strip (CHR ''+'' # ys)) = strip (CHR ''+'' # ys)"
    by (simp add: filter_id_conv)
  then show ?thesis
    using z by (simp add: normalize_e164_def foldl_replace_separators startswith_plus Let_def)
qed

lemma normalize_result:
  assumes "startswith cc ''+''" "\<forall>c\<in>set cc. c \<notin> set separators" "s \<noteq> []"
  shows "\<exists>ys. normalize_e164 cc (Some s) = Some (CHR ''+'' # ys)
              \<and> (\<forall>c\<in>set ys. c \<notin> set separators)"
proof -
  define n where "n = filter (\<lambda>c. c \<notin> set separators) (strip s)"
  have nsep: "\<forall>c\<in>set n. c \<notin> set separators" unfolding n_def by simp
  have nz: "normalize_e164 cc (Some s) = (if startswith n ''+'' then Some n else Some (cc @ n))"
    using assms(3) unfolding n_def
    by (simp add: normalize_e164_def foldl_replace_separators Let_def)
  obtain cs where cs: "cc = CHR ''+'' # cs" using assms(1) startswith_plus by blast
  show ?thesis
  proof (cases "startswith n ''+''")
    case True
    then obtain ys where ys: "n = CHR ''+'' # ys" using startswith_plus by blast
    have "\<forall>c\<in>set ys. c \<notin> set separators" using nsep unfolding ys by simp
    then show ?thesis using True ys nz by simp
  next
    case False
    have "\<forall>c\<in>set (cs @ n). c \<notin> set separators" using assms(2) nsep unfolding cs by auto
    then show ?thesis using False nz unfolding cs by simp
  qed
qed

lemma strip_decomp:
  "\<exists>a b. s = a @ strip s @ b \<and> list_all isspace a \<and> list_all isspace b"
proof -
  define d where "d = dropWhile isspace s"
  have s: "s = takeWhile isspace s @ d" by (simp add: d_def)
  have "d = rev (takeWhile isspace (rev d) @ dropWhile isspace (rev d))"
    by (simp only: takeWhile_dropWhile_id rev_rev_ident)
  also have "\<dots> = rev (dropWhile isspace (rev d)) @ rev (takeWhile isspace (rev d))"
    by (simp only: rev_append)
  finally have d: "d = strip s @ rev (takeWhile isspace (rev d))"
    by (simp only: strip_def d_def)
  have a: "list_all isspace (takeWhile isspace s)"
    by (simp add: list_all_iff) (meson set_takeWhileD)
  have b: "list_all isspace (rev (takeWhile isspace (rev d)))"
    by (simp add: list_all_iff) (meson set_takeWhileD)
  have "s = takeWhile isspace s @ strip s @ rev (takeWhile isspace (rev d))"
    using s d by simp
  with a b show ?thesis by blast
qed

lemma strip_ends:
  assumes "strip s \<noteq> []"
  shows "\<not> isspace (hd (strip s))" "\<not> isspace (last (strip s))"
proof -
  define d where "d = dropWhile isspace s"
  define e where "e = dropWhile isspace (rev d)"
  have st: "strip s = rev e" by (simp add: strip_def d_def e_def)
  have e: "e \<noteq> []" using assms st by simp
  have "\<not> isspace (hd e)" using e unfolding e_def by (rule hd_dropWhile)
  thus "\<not> isspace (last (strip s))" using e st by (simp add: last_rev)
  have "d = rev (takeWhile isspace (rev d) @ dropWhile isspace (rev d))"
    by (simp only: takeWhile_dropWhile_id rev_rev_ident)
  also have "\<dots> = rev e @ rev (takeWhile isspace (rev d))"
    by (simp only: rev_append e_def)
  finally have dd: "d = rev e @ rev (takeWhile isspace (rev d))" .
  hence "d \<noteq> []" using e by auto
  hence "\<not> isspace (hd d)" unfolding d_def by (rule hd_dropWhile)
  moreover have "hd d = hd (rev e)" using dd e by (metis hd_append2 rev_is_Nil_conv)
  ultimately show "\<not> isspace (hd (strip s))" using st by simp
qed

text \<open>
  C7. For every raw number \<open>s\<close> and default country code \<open>cc\<close>, \<open>normalize_e164\<close> trims
  \<open>s\<close>, removes every space, hyphen and parenthesis, returns the result as it is when it
  begins with \<open>+\<close> and prepends \<open>cc\<close> otherwise; the empty string is returned unchanged.
  Trimming takes away the whitespace before the first and after the last character that
  is not whitespace, and nothing else: the trimmed string \<open>strip s\<close> lies in \<open>s\<close> between
  two runs of whitespace and neither begins nor ends with whitespace. With \<open>+91\<close>,
  \<open>98765 43210\<close> gives \<open>+919876543210\<close> and \<open>+1 555-123-4567\<close> gives \<open>+15551234567\<close>; a tab
  before \<open>5\<close> and a line break after it give \<open>+915\<close>, a tab between two digits stays, and
  a string of whitespace alone gives the bare country code.
\<close>

theorem normalize_e164_steps:
  "normalize_e164 cc (Some s) =
     Some (if s = [] then []
           else let n = filter (\<lambda>c. c \<notin> {CHR '' '', CHR ''-'', CHR ''('', CHR '')''}) (strip s)
                in if n \<noteq> [] \<and> hd n = CHR ''+'' then n else cc @ n)
   \<and> normalize_e164 ''+91'' (Some ''98765 43210'') = Some ''+919876543210''
   \<and> normalize_e164 ''+91'' (Some ''+1 555-123-4567'') = Some ''+15551234567''
   \<and> (\<exists>a b. s = a @ strip s @ b \<and> list_all isspace a \<and> list_all isspace b)
   \<and> (strip s = [] \<or> (\<not> isspace (hd (strip s)) \<and> \<not> isspace (last (strip s))))
   \<and> normalize_e164 ''+91'' (Some [CHR 0x09, CHR ''5'', CHR 0x0A]) = Some ''+915''
   \<and> normalize_e164 ''+91'' (Some [CHR 0x0D, CHR ''+'', CHR ''1'', CHR '' '', CHR ''5'', CHR 0x0C])
        = Some ''+15''
   \<and> normalize_e164 ''+91'' (Some [CHR ''1'', CHR 0x09, CHR ''5''])
        = Some [CHR ''+'', CHR ''9'', CHR ''1'', CHR ''1'', CHR 0x09, CHR ''5'']
   \<and> normalize_e164 ''+91'' (Some [CHR '' '', CHR 0x09]) = Some ''+91''"
proof -
  have sw: "startswith n ''+'' \<longleftrightarrow> n \<noteq> [] \<and> hd n = CHR ''+''" for n
    by (cases n) (auto simp: startswith_def)
  have seps: "set separators = {CHR '' '', CHR ''-'', CHR ''('', CHR '')''}"
    by (simp add: separators_def)
  have "normalize_e164 cc (Some s) =
     Some (if s = [] then []
           else let n = filter (\<lambda>c. c \<notin> {CHR '' '', CHR ''-'', CHR ''('', CHR '')''}) (strip s)
                in if n \<noteq> [] \<and> hd n = CHR ''+'' then n else cc @ n)"
    unfolding seps[symmetric]
    by (simp add: normalize_e164_def foldl_replace_separators Let_def sw)
  moreover have "normalize_e164 ''+91'' (Some ''98765 43210'') = Some ''+919876543210''"
    by (simp add: normalize_e164_def strip_def isspace_def separators_def replace_char_def
        startswith_def)
  moreover have "normalize_e164 ''+91'' (Some ''+1 555-123-4567'') = Some ''+15551234567''"
    by (simp add: normalize_e164_def strip_def isspace_def separators_def replace_char_def
        startswith_def)
  moreover have "\<exists>a b. s = a @ strip s @ b \<and> list_all isspace a \<and> list_all isspace b"
    by (rule strip_decomp)
  moreover have "strip s = [] \<or> (\<not> isspace (hd (strip s)) \<and> \<not> isspace (last (strip s)))"
    using strip_ends[of s] by blast
  moreover have "normalize_e164 ''+91'' (Some [CHR 0x09, CHR ''5'', CHR 0x0A]) = Some ''+915''"
    by (simp add: normalize_e164_def strip_def isspace_def separators_def replace_char_def
        startswith_def)
  moreover have "normalize_e164 ''+91''
       (Some [CHR 0x0D, CHR ''+'', CHR ''1'', CHR '' '', CHR ''5'', CHR 0x0C]) = Some ''+15''"
    by (simp add: normalize_e164_def strip_def isspace_def separators_def replace_char_def
        startswith_def)
  moreover have "normalize_e164 ''+91'' (Some [CHR ''1'', CHR 0x09, CHR ''5''])
        = Some [CHR ''+'', CHR ''9'', CHR ''1'', CHR ''1'', CHR 0x09, CHR ''5'']"
    by (simp add: normalize_e164_def strip_def isspace_def separators_def replace_char_def
        startswith_def)
  moreover have "normalize_e164 ''+91'' (Some [CHR '' '', CHR 0x09]) = Some ''+91''"
    by (simp add: normalize_e164_def strip_def isspace_def separators_def replace_char_def
        startswith_def)
  ultimately show ?thesis by blast
qed

theorem normalize_e164_steps_witness:
  "strip [CHR 0x09, CHR ''('', CHR ''0'', CHR '')'', CHR '' '', CHR ''5'', CHR 0x0A] = ''(0) 5''
   \<and> \<not> isspace (hd ''(0) 5'') \<and> \<not> isspace (last ''(0) 5'')
   \<and> normalize_e164 ''+91''
        (Some [CHR 0x09, CHR ''('', CHR ''0'', CHR '')'', CHR '' '', CHR ''5'', CHR 0x0A])
       = Some ''+9105''"
  using normalize_e164_steps [of "''+91''"
      "[CHR 0x09, CHR ''('', CHR ''0'', CHR '')'', CHR '' '', CHR ''5'', CHR 0x0A]"]
  by (simp add: strip_def isspace_def)

text \<open>
  C10 (as amended). When the default country code begins with \<open>+\<close> and contains no space,
  hyphen or parenthesis, as \<open>+91\<close> does, normalising a second time changes nothing exactly
  for the inputs whose normalised number does not end in a whitespace character. The
  separators are removed after the trimming, so a tab or a line break that stood before
  a closing parenthesis ends the result, and the second call trims it away.
\<close>

theorem normalize_e164_idempotent_iff:
  assumes "startswith cc ''+''" "\<forall>c\<in>set cc. c \<notin> set separators"
  shows "normalize_e164 cc (normalize_e164 cc x) = normalize_e164 cc x \<longleftrightarrow>
         (case normalize_e164 cc x of None \<Rightarrow> True | Some m \<Rightarrow> m = [] \<or> \<not> isspace (last m))"
proof (cases x)
  case None
  then show ?thesis by (simp add: normalize_e164_def)
next
  case (Some s)
  show ?thesis
  proof (cases "s = []")
    case True
    then show ?thesis using Some by (simp add: normalize_e164_def)
  next
    case False
    obtain ys where ys: "normalize_e164 cc (Some s) = Some (CHR ''+'' # ys)"
      "\<forall>c\<in>set ys. c \<notin> set separators"
      using normalize_result[OF assms False] by blast
    show ?thesis
      using Some ys normalize_plus[OF ys(2), of cc] strip_id_iff[OF plus_not_space, of ys]
      by simp
  qed
qed

theorem normalize_e164_idempotent_iff_witness:
  "startswith ''+91'' ''+'' \<and> list_all (\<lambda>c. c \<notin> set separators) ''+91''
   \<and> normalize_e164 ''+91'' (normalize_e164 ''+91'' (Some ''98765 43210''))
       = normalize_e164 ''+91'' (Some ''98765 43210'')"
proof -
  have h1: "startswith ''+91'' ''+''" by (simp add: startswith_def)
  have h2: "\<forall>c\<in>set ''+91''. c \<notin> set separators" by (simp add: separators_def)
  have v: "normalize_e164 ''+91'' (Some ''98765 43210'') = Some ''+919876543210''"
    by (simp add: normalize_e164_def strip_def isspace_def separators_def replace_char_def
        startswith_def)
  have "\<not> isspace (last ''+919876543210'')" by (simp add: isspace_def)
  then show ?thesis
    using normalize_e164_idempotent_iff [OF h1 h2, of "Some ''98765 43210''"] h1 h2 v
    by (simp add: list_all_iff)
qed

theorem normalize_e164_not_idempotent:
  "normalize_e164 ''+91'' (normalize_e164 ''+91'' (Some [CHR ''+'', CHR ''1'', CHR 0x09, CHR '')'']))
     \<noteq> normalize_e164 ''+91'' (Some [CHR ''+'', CHR ''1'', CHR 0x09, CHR '')''])"
  by (simp add: normalize_e164_def strip_def isspace_def separators_def replace_char_def
      startswith_def)

section \<open>Properties of \<open>try_parse_datetime\<close>\<close>
lemma split_on_Some:
  assumes "split_on c s = Some (a, b)"
  shows "s = a @ c # b \<and> c \<notin> set a"
proof -
  have cs: "c \<in> set s" using assms by (auto simp: split_on_def split: if_splits)
  have a: "a = takeWhile (\<lambda>x. x \<noteq> c) s" and b: "b = tl (dropWhile (\<lambda>x. x \<noteq> c) s)"
    using assms by (auto simp: split_on_def split: if_splits)
  have "dropWhile (\<lambda>x. x \<noteq> c) s \<noteq> []" using cs by (simp add: dropWhile_eq_Nil_conv)
  moreover have "hd (dropWhile (\<lambda>x. x \<noteq> c) s) = c"
    using calculation hd_dropWhile by (metis (full_types))
  ultimately have "dropWhile (\<lambda>x. x \<noteq> c) s = c # b" unfolding b by (metis list.collapse)
  then have "s = a @ c # b" unfolding a by (metis takeWhile_dropWhile_id)
  moreover have "c \<notin> set a" unfolding a by (auto dest: set_takeWhileD)
  ultimately show ?thesis by blast
qed

lemma length_1_conv: "length xs = Suc 0 \<longleftrightarrow> (\<exists>a. xs = [a])"
  by (cases xs) auto

lemma length_2_conv: "length xs = 2 \<longleftrightarrow> (\<exists>a b. xs = [a, b])"
  by (cases xs; cases "tl xs") auto

lemma parse_digits_Some: "parse_digits n s = Some v \<Longrightarrow> length s = n \<and> list_all isdigit s"
  by (auto simp: parse_digits_def split: if_splits)

lemma strp_field_Some:
  "strp_field lo hi tok = Some v \<Longrightarrow> (length tok = 1 \<or> length tok = 2) \<and> list_all isdigit tok"
  by (auto simp: strp_field_def split: if_splits option.splits dest: parse_digits_Some)

lemma space_is_space: "isspace (CHR '' '')" by (simp add: isspace_def)

lemma digit_not_space: "isdigit c \<Longrightarrow> \<not> isspace c"
  by (auto simp: isdigit_def isspace_def)

lemma strp_day_Some:
  assumes "strp_day tok = Some v"
  shows "(length tok = 1 \<or> length tok = 2) \<and> isdigit (last tok) \<and> (\<forall>c\<in>set tok. isdigit c \<or> isspace c)"
proof (cases "length tok = 2 \<and> hd tok = CHR '' ''")
  case True
  then obtain b where tok: "tok = [CHR '' '', b]" by (auto simp: length_2_conv)
  then have "strp_field 1 9 [b] = Some v" using assms by (simp add: strp_day_def)
  then have "isdigit b" using strp_field_Some by fastforce
  then show ?thesis using tok space_is_space by simp
next
  case False
  then have "strp_field 1 31 tok = Some v" using assms by (auto simp: strp_day_def)
  then have f: "(length tok = 1 \<or> length tok = 2) \<and> list_all isdigit tok" by (rule strp_field_Some)
  then have "tok \<noteq> []" by auto
  then have "last tok \<in> set tok" by simp
  then show ?thesis using f by (auto simp: list_all_iff)
qed

lemma strptime_shape:
  assumes "strptime_dmy_hm s = Some x"
  shows "\<exists>dtok rest. s = dtok @ CHR ''/'' # rest \<and> (length dtok = 1 \<or> length dtok = 2)
           \<and> isdigit (last dtok) \<and> (\<forall>c\<in>set s. strptime_char c)"
proof -
  obtain dtok r1 where s1: "split_on (CHR ''/'') s = Some (dtok, r1)"
    using assms by (auto simp: strptime_dmy_hm_def split: option.splits)
  obtain mtok r2 where s2: "split_on (CHR ''/'') r1 = Some (mtok, r2)"
    using assms s1 by (auto simp: strptime_dmy_hm_def split: option.splits)
  define ytok where "ytok = take 4 r2"
  define r3 where "r3 = drop 4 r2"
  define ws where "ws = takeWhile isspace r3"
  define r4 where "r4 = dropWhile isspace r3"
  have rest: "ws \<noteq> [] \<and> (\<exists>htok mintok. split_on (CHR '':'') r4 = Some (htok, mintok)
      \<and> strp_day dtok \<noteq> None \<and> strp_field 1 12 mtok \<noteq> None \<and> parse_digits 4 ytok \<noteq> None
      \<and> strp_field 0 23 htok \<noteq> None \<and> strp_field 0 59 mintok \<noteq> None)"
    using assms s1 s2 unfolding ytok_def r3_def ws_def r4_def
    by (auto simp: strptime_dmy_hm_def Let_def split: option.splits if_splits)
  then obtain htok mintok where s3: "split_on (CHR '':'') r4 = Some (htok, mintok)"
    and d: "strp_day dtok \<noteq> None" and m: "strp_field 1 12 mtok \<noteq> None"
    and y: "parse_digits 4 ytok \<noteq> None" and h: "strp_field 0 23 htok \<noteq> None"
    and mi: "strp_field 0 59 mintok \<noteq> None"
    by blast
  have e1: "s = dtok @ CHR ''/'' # r1" using split_on_Some[OF s1] by simp
  have e2: "r1 = mtok @ CHR ''/'' # r2" using split_on_Some[OF s2] by simp
  have e3: "r2 = ytok @ r3" unfolding ytok_def r3_def by simp
  have e4: "r3 = ws @ r4" unfolding ws_def r4_def by simp
  have e5: "r4 = htok @ CHR '':'' # mintok" using split_on_Some[OF s3] by simp
  have ad: "(length dtok = 1 \<or> length dtok = 2) \<and> isdigit (last dtok) \<and> (\<forall>c\<in>set dtok. isdigit c \<or> isspace c)"
    using d strp_day_Some by blast
  have am: "\<forall>c\<in>set mtok. isdigit c" using m strp_field_Some by (fastforce simp: list_all_iff)
  have ay: "\<forall>c\<in>set ytok. isdigit c" using y parse_digits_Some by (fastforce simp: list_all_iff)
  have ah: "\<forall>c\<in>set htok. isdigit c" using h strp_field_Some by (fastforce simp: list_all_iff)
  have ami: "\<forall>c\<in>set mintok. isdigit c" using mi strp_field_Some by (fastforce simp: list_all_iff)
  have aw: "\<forall>c\<in>set ws. isspace c" unfolding ws_def by (auto dest: set_takeWhileD)
  have "s = dtok @ CHR ''/'' # mtok @ CHR ''/'' # ytok @ ws @ htok @ CHR '':'' # mintok"
    using e1 e2 e3 e4 e5 by simp
  then have "\<forall>c\<in>set s. strptime_char c"
    using ad am ay ah ami aw by (auto simp: strptime_char_def)
  then show ?thesis using e1 ad by blast
qed

lemma strptime_T: "strptime_dmy_hm (d @ ''T'' @ t) = None"
proof (rule ccontr)
  assume "strptime_dmy_hm (d @ ''T'' @ t) \<noteq> None"
  then obtain x where "strptime_dmy_hm (d @ ''T'' @ t) = Some x" by blast
  then have "\<forall>c\<in>set (d @ ''T'' @ t). strptime_char c" using strptime_shape by blast
  then have "strptime_char (CHR ''T'')" by simp
  then show False by (simp add: strptime_char_def isdigit_def isspace_def)
qed

lemma digits_at_Some: "digits_at s i n = Some v \<Longrightarrow> k < n \<Longrightarrow> isdigit (s ! (i + k))"
proof -
  assume a: "digits_at s i n = Some v" and k: "k < n"
  then have l: "length (take n (drop i s)) = n" and d: "list_all isdigit (take n (drop i s))"
    using parse_digits_Some unfolding digits_at_def by blast+
  then have "isdigit (take n (drop i s) ! k)" using k by (simp add: list_all_length)
  moreover have "i + k < length s" using l k by auto
  ultimately show ?thesis using k by simp
qed

lemma fromisoformat_Some: "fromisoformat s = Some x \<Longrightarrow> k < 4 \<Longrightarrow> isdigit (s ! k)"
proof -
  assume a: "fromisoformat s = Some x" and k: "k < 4"
  then obtain y where "digits_at s 0 4 = Some y"
    by (auto simp: fromisoformat_def split: if_splits option.splits)
  then show ?thesis using digits_at_Some[of s 0 4 y k] k by simp
qed

lemma slash_not_digit: "\<not> isdigit (CHR ''/'')" by (simp add: isdigit_def)

lemma strptime_excludes_iso:
  assumes "strptime_dmy_hm (d @ '' '' @ t) = Some x" "d \<noteq> []"
  shows "fromisoformat (d @ ''T'' @ t) = None"
proof (rule ccontr)
  assume "fromisoformat (d @ ''T'' @ t) \<noteq> None"
  then obtain z where iso: "fromisoformat (d @ ''T'' @ t) = Some z" by blast
  obtain dtok rest where sh: "d @ '' '' @ t = dtok @ CHR ''/'' # rest"
    "length dtok = 1 \<or> length dtok = 2" "isdigit (last dtok)"
    using strptime_shape[OF assms(1)] by blast
  define k where "k = length dtok"
  have k: "k = 1 \<or> k = 2" using sh(2) k_def by simp
  have sk: "(d @ '' '' @ t) ! k = CHR ''/''" unfolding sh(1) k_def by simp
  have sk1: "isdigit ((d @ '' '' @ t) ! (k - 1))"
  proof -
    have "dtok \<noteq> []" using sh(2) by auto
    then have "last dtok = dtok ! (k - 1)" unfolding k_def by (simp add: last_conv_nth)
    moreover have "(dtok @ CHR ''/'' # rest) ! (k - 1) = dtok ! (k - 1)"
      using k unfolding k_def by (auto simp: nth_append)
    ultimately show ?thesis using sh(1) sh(3) by simp
  qed
  have "k < length d"
  proof (rule ccontr)
    assume "\<not> k < length d"
    then have le: "length d \<le> k" by simp
    have "1 \<le> length d" using assms(2) by (simp add: Suc_leI)
    then consider "length d = k" | "length d = 1" "k = 2" using k le
      by linarith
    then show False
    proof cases
      case 1
      then have "(d @ '' '' @ t) ! k = CHR '' ''" by (simp add: nth_append)
      then show False using sk by simp
    next
      case 2
      then have "(d @ '' '' @ t) ! (k - 1) = CHR '' ''" by (simp add: nth_append)
      then show False using sk1 digit_not_space space_is_space by metis
    qed
  qed
  then have "(d @ ''T'' @ t) ! k = CHR ''/''" using sk by (simp add: nth_append)
  moreover have "isdigit ((d @ ''T'' @ t) ! k)" using fromisoformat_Some[OF iso, of k] k by auto
  ultimately show False using slash_not_digit by simp
qed

lemma try_parse_datetime_refines:
  "try_parse_datetime d t = resolve_spec d t"
proof (cases d; cases t)
  fix a b assume d: "d = Some a" and t: "t = Some b"
  show ?thesis
  proof (cases "a = [] \<or> b = []")
    case True
    then show ?thesis using d t by (auto simp: try_parse_datetime_def resolve_spec_def)
  next
    case False
    then have a: "a \<noteq> []" by simp
    show ?thesis
    proof (cases "fromisoformat (a @ '' '' @ b)")
      case (Some x)
      then show ?thesis using d t False by (simp add: try_parse_datetime_def resolve_spec_def)
    next
      case None
      note iso1 = None
      show ?thesis
      proof (cases "strptime_dmy_hm (a @ '' '' @ b)")
        case None
        then show ?thesis using d t False iso1 strptime_T[of a b]
          by (simp add: try_parse_datetime_def resolve_spec_def split: option.splits)
      next
        case (Some x)
        then show ?thesis using d t False iso1 strptime_excludes_iso[OF Some a]
          by (simp add: try_parse_datetime_def resolve_spec_def)
      qed
    qed
  qed
qed (auto simp: try_parse_datetime_def resolve_spec_def)

lemmas iso_simps =
  fromisoformat_def digits_at_def parse_digits_def isdigit_def digit_val_def
  parse_isoformat_time_def parse_hh_mm_ss_ff_def is_sign_def new_datetime_def
  days_in_month_def is_leap_def

lemmas strptime_simps =
  strptime_dmy_hm_def split_on_def strp_day_def strp_field_def parse_digits_def isdigit_def
  isspace_def digit_val_def new_datetime_def days_in_month_def is_leap_def

lemma parse_iso_example:
  "try_parse_datetime (Some ''2024-05-01'') (Some ''09:30'')
     = Some \<lparr>year = 2024, month = 5, day = 1, hour = 9, minute = 30, second = 0,
              microsecond = 0, tzinfo = None\<rparr>"
  by (simp add: try_parse_datetime_def iso_simps)

lemma parse_fallback_example:
  "fromisoformat ''01/05/2024 09:30'' = None
   \<and> strptime_dmy_hm ''01/05/2024 09:30''
       = Some \<lparr>year = 2024, month = 5, day = 1, hour = 9, minute = 30, second = 0,
                microsecond = 0, tzinfo = None\<rparr>"
  by (simp add: fromisoformat_def strptime_simps)

lemma parse_fallback_example_T: "fromisoformat ''01/05/2024T09:30'' = None"
  by (simp add: fromisoformat_def)

lemma parse_unparseable_example:
  "try_parse_datetime (Some ''not-a-date'') (Some ''09:30'') = None"
  by (simp add: try_parse_datetime_def fromisoformat_def strptime_dmy_hm_def split_on_def)

text \<open>
  C6. The date and time resolution gives what the three attempts of the specification
  give in their order (the ISO form of \<open>date time\<close>, the ISO form of \<open>date"T"time\<close>, the
  \<open>DD/MM/YYYY HH:MM\<close> fallback), the first that parses winning; a missing or empty date or
  time is unparseable at once; \<open>("2024-05-01", "09:30")\<close> resolves to 2024-05-01 09:30,
  \<open>("01/05/2024", "09:30")\<close> parses in neither ISO form and resolves to the same instant
  through the fallback, and \<open>("not-a-date", "09:30")\<close> is unparseable: the pass skips the
  reminder, leaves the store as it is and goes on with the next reminder.
\<close>

theorem try_parse_datetime_resolution:
  "try_parse_datetime d t = resolve_spec d t
   \<and> try_parse_datetime None t = None \<and> try_parse_datetime (Some []) t = None
   \<and> try_parse_datetime d None = None \<and> try_parse_datetime d (Some []) = None
   \<and> try_parse_datetime (Some ''2024-05-01'') (Some ''09:30'')
       = Some \<lparr>year = 2024, month = 5, day = 1, hour = 9, minute = 30, second = 0,
                microsecond = 0, tzinfo = None\<rparr>
   \<and> fromisoformat ''01/05/2024 09:30'' = None
   \<and> fromisoformat ''01/05/2024T09:30'' = None
   \<and> try_parse_datetime (Some ''01/05/2024'') (Some ''09:30'')
       = Some \<lparr>year = 2024, month = 5, day = 1, hour = 9, minute = 30, second = 0,
                microsecond = 0, tzinfo = None\<rparr>
   \<and> try_parse_datetime (Some ''not-a-date'') (Some ''09:30'') = None
   \<and> process_reminder cfg w uid num p
         \<lparr>date = Some ''not-a-date'', time = Some ''09:30'', message = m, calledAt = None,
            createdAt = c\<rparr> st = (st, Unparseable)
   \<and> scan_reminders cfg w uid num ui ri
         (\<lparr>date = Some ''not-a-date'', time = Some ''09:30'', message = m, calledAt = None,
            createdAt = c\<rparr> # rs) st
       = (case scan_reminders cfg w uid num ui (Suc ri) rs st of
            (st'', tr, e) \<Rightarrow> (st'', ((ui, ri), Unparseable) # tr, e))"
proof -
  have fb: "try_parse_datetime (Some ''01/05/2024'') (Some ''09:30'')
       = Some \<lparr>year = 2024, month = 5, day = 1, hour = 9, minute = 30, second = 0,
                microsecond = 0, tzinfo = None\<rparr>"
    using parse_fallback_example by (simp add: try_parse_datetime_def)
  have miss: "try_parse_datetime None t = None \<and> try_parse_datetime (Some []) t = None
   \<and> try_parse_datetime d None = None \<and> try_parse_datetime d (Some []) = None"
    by (simp add: try_parse_datetime_def split: option.splits)
  have skip: "process_reminder cfg w uid num p
         \<lparr>date = Some ''not-a-date'', time = Some ''09:30'', message = m, calledAt = None,
            createdAt = c\<rparr> st = (st, Unparseable)" for p st
    using parse_unparseable_example by (simp add: process_reminder_def)
  have go_on: "scan_reminders cfg w uid num ui ri
         (\<lparr>date = Some ''not-a-date'', time = Some ''09:30'', message = m, calledAt = None,
            createdAt = c\<rparr> # rs) st
       = (case scan_reminders cfg w uid num ui (Suc ri) rs st of
            (st'', tr, e) \<Rightarrow> (st'', ((ui, ri), Unparseable) # tr, e))"
    by (simp add: skip)
  show ?thesis
    using try_parse_datetime_refines parse_iso_example parse_fallback_example
      parse_fallback_example_T fb parse_unparseable_example miss skip go_on
    by blast
qed

theorem try_parse_datetime_resolution_witness:
  "try_parse_datetime (Some ''1/5/2024'') (Some ''9:05'')
     = Some \<lparr>year = 2024, month = 5, day = 1, hour = 9, minute = 5, second = 0,
              microsecond = 0, tzinfo = None\<rparr>"
proof -
  have "try_parse_datetime (Some ''1/5/2024'') (Some ''9:05'')
          = resolve_spec (Some ''1/5/2024'') (Some ''9:05'')"
    using try_parse_datetime_resolution [of "Some ''1/5/2024''" "Some ''9:05''"] by blast
  then show ?thesis
    by (simp add: resolve_spec_def fromisoformat_def strptime_simps)
qed

section \<open>A pass carries out its plan\<close>

lemma process_reminder_eq:
  "process_reminder cfg w uid num p r st =
     (apply_entry w st (p, uid, r, outcome_of cfg w num p r), outcome_of cfg w num p r)"
  by (auto simp: process_reminder_def outcome_of_def apply_entry_def call_phone_def
      mark_called_def Let_def split: option.splits sum.splits)

lemma scan_reminders_plan:
  "scan_reminders cfg w uid num ui ri rs st =
     (foldl (apply_entry w) st (carried_out (plan_reminders cfg w uid num ui ri rs)),
      map entry_event (carried_out (plan_reminders cfg w uid num ui ri rs)),
      first_raised (plan_reminders cfg w uid num ui ri rs))"
proof (induction rs arbitrary: ri st)
  case Nil
  then show ?case by simp
next
  case (Cons r rs)
  show ?case
  proof (cases "outcome_of cfg w num (ui, ri) r")
    case (Raised e)
    then show ?thesis
      by (simp add: process_reminder_eq is_raised_def entry_event_def apply_entry_def)
  qed (simp_all add: process_reminder_eq is_raised_def entry_event_def Cons.IH)
qed

lemma carried_append:
  "carried_out (xs @ ys) = (if first_raised xs = None then xs @ carried_out ys else carried_out xs)"
  by (induction xs rule: carried_out.induct) (auto simp: is_raised_def split: outcome.splits)

lemma first_raised_append:
  "first_raised (xs @ ys) = (case first_raised xs of None \<Rightarrow> first_raised ys | Some e \<Rightarrow> Some e)"
  by (induction xs rule: first_raised.induct) (auto split: outcome.splits)

lemma carried_id: "first_raised xs = None \<Longrightarrow> carried_out xs = xs"
  by (induction xs rule: carried_out.induct) (auto simp: is_raised_def split: outcome.splits)

lemma scan_users_plan:
  "scan_users cfg w us st =
     (foldl (apply_entry w) st (carried_out (plan_users cfg w us)),
      map entry_event (carried_out (plan_users cfg w us)),
      first_raised (plan_users cfg w us))"
proof (induction us arbitrary: st)
  case Nil
  then show ?case by (simp add: plan_users_def)
next
  case (Cons a us)
  obtain ui u where a: "a = (ui, u)" by (cases a)
  let ?pr = "plan_reminders cfg w (userId u) (phoneNumber u) ui 0 (reminders u)"
  have pu: "plan_users cfg w ((ui, u) # us) = ?pr @ plan_users cfg w us"
    by (simp add: plan_users_def)
  show ?case
  proof (cases "first_raised ?pr")
    case None
    then show ?thesis
      unfolding a pu
      by (simp add: scan_reminders_plan Cons.IH carried_append first_raised_append carried_id)
  next
    case (Some e)
    then show ?thesis
      unfolding a pu
      by (simp add: scan_reminders_plan carried_append first_raised_append)
  qed
qed

lemma process_due_once_plan:
  "process_due_once cfg w st =
     (if \<not> db_configured cfg \<or> \<not> twilio_configured cfg then (st, [], None)
      else if find_raises w then (st, [], Some FindError)
      else (foldl (apply_entry w) st (carried_out (plan_users cfg w (find_users st))),
            map entry_event (carried_out (plan_users cfg w (find_users st))),
            first_raised (plan_users cfg w (find_users st))))"
  by (simp add: process_due_once_def scan_users_plan)

lemma plan_reminders_map:
  "plan_reminders cfg w uid num ui ri rs =
     map (\<lambda>k. ((ui, ri + k), uid, rs ! k, outcome_of cfg w num (ui, ri + k) (rs ! k))) [0..<length rs]"
proof (induction rs arbitrary: ri)
  case Nil
  then show ?case by simp
next
  case (Cons r rs)
  have "[0..<length (r # rs)] = 0 # map Suc [0..<length rs]"
    by (simp add: upt_conv_Cons map_Suc_upt del: upt_Suc)
  then show ?case by (simp add: Cons.IH comp_def del: upt_Suc)
qed

lemma in_plan_reminders:
  "(p, uid', r, oc) \<in> set (plan_reminders cfg w uid num ui 0 rs) \<longleftrightarrow>
     fst p = ui \<and> snd p < length rs \<and> uid' = uid \<and> r = rs ! snd p
       \<and> oc = outcome_of cfg w num p r"
  by (cases p) (auto simp: plan_reminders_map)

lemma in_zip_upt:
  "(ui, u) \<in> set (zip [0..<length st] st) \<longleftrightarrow> ui < length st \<and> u = st ! ui"
proof
  assume "(ui, u) \<in> set (zip [0..<length st] st)"
  then obtain n where "[0..<length st] ! n = ui" "st ! n = u" "n < length st"
    by (auto simp: in_set_zip)
  then show "ui < length st \<and> u = st ! ui" by simp
next
  assume a: "ui < length st \<and> u = st ! ui"
  then have "[0..<length st] ! ui = fst (ui, u) \<and> st ! ui = snd (ui, u)
      \<and> ui < length [0..<length st] \<and> ui < length st"
    by simp
  then show "(ui, u) \<in> set (zip [0..<length st] st)"
    unfolding in_set_zip by (rule exI[of _ ui])
qed

lemma in_find_users:
  "(ui, u) \<in> set (find_users st) \<longleftrightarrow> ui < length st \<and> u = st ! ui \<and> find_filter u"
  using in_zip_upt[of ui u st] by (auto simp: find_users_def)


lemma in_plan_users:
  "(p, uid, r, oc) \<in> set (plan_users cfg w (find_users st)) \<longleftrightarrow>
     selected st p \<and> uid = userId (st ! fst p) \<and> r = rem_at st p
       \<and> oc = outcome_of cfg w (phoneNumber (st ! fst p)) p r"
  by (auto simp: plan_users_def in_plan_reminders in_find_users selected_def valid_pos_def rem_at_def)




lemma carried_prefix: "\<exists>ys. xs = carried_out xs @ ys"
  by (induction xs rule: carried_out.induct) auto

lemma set_carried: "set (carried_out xs) \<subseteq> set xs"
  by (metis carried_prefix set_append sup_ge1)


section \<open>Rounding to the nearest float\<close>

lemma round_half_even_le: "y \<le> real_of_int n \<Longrightarrow> round_half_even y \<le> n"
proof -
  assume a: "y \<le> real_of_int n"
  show ?thesis
  proof (cases "y = real_of_int n")
    case True
    then show ?thesis by (simp add: round_half_even_def)
  next
    case False
    then have "y < real_of_int n" using a by simp
    then have "\<lfloor>y\<rfloor> < n" by (simp add: floor_less_iff)
    then show ?thesis by (simp add: round_half_even_def Let_def)
  qed
qed

lemma round_half_even_ge: "real_of_int n \<le> y \<Longrightarrow> n \<le> round_half_even y"
proof -
  assume "real_of_int n \<le> y"
  then have "n \<le> \<lfloor>y\<rfloor>" by (simp add: le_floor_iff)
  then show ?thesis by (simp add: round_half_even_def Let_def)
qed

lemma round_half_even_int: "round_half_even (real_of_int n) = n"
  by (simp add: round_half_even_def)

lemma binade_bounds:
  assumes "x \<noteq> 0"
  shows "2 powr real_of_int (binade x) \<le> \<bar>x\<bar>" "\<bar>x\<bar> < 2 powr real_of_int (binade x + 1)"
proof -
  have "0 < \<bar>x\<bar>" using assms by simp
  then have "(\<lfloor>log 2 \<bar>x\<bar>\<rfloor> = binade x)
      = (2 powr real_of_int (binade x) \<le> \<bar>x\<bar> \<and> \<bar>x\<bar> < 2 powr real_of_int (binade x + 1))"
    by (rule floor_log_eq_powr_iff) simp
  then show "2 powr real_of_int (binade x) \<le> \<bar>x\<bar>" "\<bar>x\<bar> < 2 powr real_of_int (binade x + 1)"
    by (simp_all add: binade_def)
qed

lemma binade_less:
  assumes "x \<noteq> 0" "\<bar>x\<bar> < (2::real) ^ n"
  shows "binade x < int n"
proof -
  have "2 powr real_of_int (binade x) < 2 powr real_of_int (int n)"
    using binade_bounds(1)[OF assms(1)] assms(2) by (simp add: powr_realpow)
  then have "real_of_int (binade x) < real_of_int (int n)" by (simp only: powr_less_cancel_iff)
  then show ?thesis by simp
qed


lemma ulp_pos: "0 < ulp x"
  by (simp add: ulp_def)

lemma ulp_scale:
  assumes "binade x \<le> 52"
  shows "ulp x * 2 ^ nat (52 - binade x) = 1"
proof -
  have "2 ^ nat (52 - binade x) = (2::real) powr real_of_int (52 - binade x)"
    using assms powr_real_of_int[of "2::real" "52 - binade x"] by (simp del: of_int_diff)
  then have "ulp x * 2 ^ nat (52 - binade x)
      = 2 powr (real_of_int (binade x - 52) + real_of_int (52 - binade x))"
    by (simp only: ulp_def powr_add)
  then show ?thesis by simp
qed


lemma div_ulp:
  assumes "binade x \<le> 52"
  shows "y / ulp x = y * 2 ^ nat (52 - binade x)"
proof -
  have "y / ulp x = y * (ulp x * 2 ^ nat (52 - binade x)) / ulp x"
    by (simp only: ulp_scale[OF assms] mult_1_right)
  then show ?thesis using ulp_pos[of x] by simp
qed




lemma nearest_float_le_int:
  assumes "x \<noteq> 0" "binade x \<le> 52" "x \<le> real_of_int m"
  shows "nearest_float x \<le> real_of_int m"
proof -
  let ?k = "nat (52 - binade x)"
  have "x * 2 ^ ?k \<le> real_of_int m * 2 ^ ?k" using assms(3) by simp
  then have "x / ulp x \<le> real_of_int (m * 2 ^ ?k)" by (simp add: div_ulp[OF assms(2)])
  then have "round_half_even (x / ulp x) \<le> m * 2 ^ ?k" by (rule round_half_even_le)
  then have "real_of_int (round_half_even (x / ulp x)) \<le> real_of_int (m * 2 ^ ?k)"
    by (simp only: of_int_le_iff)
  then have "ulp x * real_of_int (round_half_even (x / ulp x)) \<le> ulp x * real_of_int (m * 2 ^ ?k)"
    using ulp_pos[of x] by (simp only: mult_le_cancel_left_pos)
  also have "\<dots> = real_of_int m * (ulp x * 2 ^ ?k)" by simp
  also have "\<dots> = real_of_int m" by (simp only: ulp_scale[OF assms(2)] mult_1_right)
  finally show ?thesis using assms(1) by (simp add: nearest_float_def)
qed

lemma nearest_float_ge_int:
  assumes "x \<noteq> 0" "binade x \<le> 52" "real_of_int m \<le> x"
  shows "real_of_int m \<le> nearest_float x"
proof -
  let ?k = "nat (52 - binade x)"
  have "real_of_int m * 2 ^ ?k \<le> x * 2 ^ ?k" using assms(3) by simp
  then have "real_of_int (m * 2 ^ ?k) \<le> x / ulp x" by (simp add: div_ulp[OF assms(2)])
  then have "m * 2 ^ ?k \<le> round_half_even (x / ulp x)" by (rule round_half_even_ge)
  then have "real_of_int (m * 2 ^ ?k) \<le> real_of_int (round_half_even (x / ulp x))"
    by (simp only: of_int_le_iff)
  then have "ulp x * real_of_int (m * 2 ^ ?k) \<le> ulp x * real_of_int (round_half_even (x / ulp x))"
    using ulp_pos[of x] by (simp only: mult_le_cancel_left_pos)
  moreover have "ulp x * real_of_int (m * 2 ^ ?k) = real_of_int m * (ulp x * 2 ^ ?k)" by simp
  moreover have "real_of_int m * (ulp x * 2 ^ ?k) = real_of_int m"
    by (simp only: ulp_scale[OF assms(2)] mult_1_right)
  moreover have "nearest_float x = ulp x * real_of_int (round_half_even (x / ulp x))"
    using assms(1) by (simp add: nearest_float_def)
  ultimately show ?thesis by (simp only:)
qed

lemma nearest_float_int:
  assumes "\<bar>n\<bar> < 2 ^ 53"
  shows "nearest_float (real_of_int n) = real_of_int n"
proof (cases "n = 0")
  case True
  then show ?thesis by (simp add: nearest_float_def)
next
  case False
  then have nz: "real_of_int n \<noteq> 0" by simp
  have "\<bar>real_of_int n\<bar> < 2 ^ 53" using assms by (metis of_int_abs of_int_less_numeral_power_cancel_iff)
  then have "binade (real_of_int n) < int 53" using nz by (rule binade_less[rotated])
  then have b: "binade (real_of_int n) \<le> 52" by simp
  show ?thesis
    using nearest_float_le_int[OF nz b, of n] nearest_float_ge_int[OF nz b, of n] by simp
qed



lemma total_seconds_whole:
  assumes "\<bar>n\<bar> < 2 ^ 53"
  shows "total_seconds (n * 1000000) = real_of_int n"
  using nearest_float_int[OF assms] by (simp add: total_seconds_def)

lemma total_seconds_one: "total_seconds 1000000 = 1"
  using total_seconds_whole[of 1] by simp



section \<open>The branch taken for a reminder\<close>

lemma outcome_of_called: "calledAt r \<noteq> None \<Longrightarrow> outcome_of cfg w num p r = AlreadyCalled"
  by (simp add: outcome_of_def process_reminder_def)

lemma outcome_of_unparseable:
  "calledAt r = None \<Longrightarrow> try_parse_datetime (date r) (time r) = None
     \<Longrightarrow> outcome_of cfg w num p r = Unparseable"
  by (simp add: outcome_of_def process_reminder_def)

lemma datetime_sub_now:
  "datetime_sub (datetime_now w) dt =
     (case tzinfo dt of
        None \<Rightarrow> Inr (to_microseconds (datetime_now w) - to_microseconds dt)
      | Some off \<Rightarrow> Inl TypeError)"
  by (simp add: datetime_sub_def datetime_now_def split: option.splits)

lemma outcome_of_aware:
  "calledAt r = None \<Longrightarrow> try_parse_datetime (date r) (time r) = Some dt \<Longrightarrow> tzinfo dt = Some off
     \<Longrightarrow> outcome_of cfg w num p r = Raised TypeError"
  by (simp add: outcome_of_def process_reminder_def datetime_sub_now)

lemma outcome_of_naive:
  assumes "calledAt r = None" "try_parse_datetime (date r) (time r) = Some dt" "tzinfo dt = None"
  shows "outcome_of cfg w num p r =
     (if 0 \<le> total_seconds (to_microseconds (datetime_now w) - to_microseconds dt)
         \<and> total_seconds (to_microseconds (datetime_now w) - to_microseconds dt)
             \<le> real_of_int (WINDOW_SECONDS cfg)
      then dispatch_outcome cfg w num p r else NotDue)"
  using assms
  by (simp add: outcome_of_def process_reminder_def datetime_sub_now dispatch_outcome_def
      dispatch_message_def call_phone_def mark_called_def Let_def)

section \<open>What a pass examines\<close>

lemma outcome_of_not_raised:
  assumes "local_or_unparseable r"
  shows "\<not> is_raised (outcome_of cfg w num p r)"
proof (cases "calledAt r = None")
  case False
  then show ?thesis by (simp add: outcome_of_called is_raised_def)
next
  case True
  show ?thesis
  proof (cases "try_parse_datetime (date r) (time r)")
    case None
    then show ?thesis using True by (simp add: outcome_of_unparseable is_raised_def)
  next
    case (Some dt)
    then have "tzinfo dt = None" using assms by (simp add: local_or_unparseable_def)
    then show ?thesis
      using True Some
      by (simp add: outcome_of_naive is_raised_def dispatch_outcome_def Let_def)
  qed
qed

lemma first_raised_None_iff:
  "first_raised es = None \<longleftrightarrow> (\<forall>en\<in>set es. \<not> is_raised (snd (snd (snd en))))"
  by (induction es rule: first_raised.induct) (auto simp: is_raised_def split: outcome.splits)

lemma offset_free_rem:
  "offset_free st \<Longrightarrow> valid_pos st q \<Longrightarrow> local_or_unparseable (rem_at st q)"
  by (auto simp: offset_free_def list_all_length valid_pos_def rem_at_def)

lemma plan_not_raised:
  assumes "offset_free st"
  shows "first_raised (plan_users cfg w (find_users st)) = None"
proof -
  have "\<not> is_raised (snd (snd (snd en)))" if "en \<in> set (plan_users cfg w (find_users st))" for en
  proof -
    obtain q uid r oc where en: "en = (q, uid, r, oc)" by (cases en) auto
    then have "selected st q" "r = rem_at st q"
      "oc = outcome_of cfg w (phoneNumber (st ! fst q)) q r"
      using that by (auto simp: in_plan_users)
    then show ?thesis
      using en outcome_of_not_raised[OF offset_free_rem[OF assms]]
      by (simp add: selected_def)
  qed
  then show ?thesis by (simp add: first_raised_None_iff)
qed

lemma pass_completes:
  assumes "offset_free st" "\<not> find_raises w"
  shows "snd (snd (process_due_once cfg w st)) = None"
  using assms plan_not_raised[OF assms(1)] by (simp add: process_due_once_plan)

lemma in_trace_iff:
  assumes "db_configured cfg" "twilio_configured cfg" "\<not> find_raises w"
  shows "(p, oc) \<in> set (fst (snd (process_due_once cfg w st))) \<longleftrightarrow>
     (\<exists>uid r. (p, uid, r, oc) \<in> set (carried_out (plan_users cfg w (find_users st))))"
  using assms by (force simp: process_due_once_plan entry_event_def)

lemma in_trace_D:
  assumes "process_due_once cfg w st = (st', tr, e)" "(p, oc) \<in> set tr"
  shows "db_configured cfg" "twilio_configured cfg" "\<not> find_raises w" "selected st p"
    "oc = outcome_of cfg w (phoneNumber (st ! fst p)) p (rem_at st p)"
proof -
  have ne: "tr \<noteq> []" using assms(2) by auto
  show c: "db_configured cfg" "twilio_configured cfg" "\<not> find_raises w"
    using assms(1) ne by (auto simp: process_due_once_def split: if_splits)
  have "tr = fst (snd (process_due_once cfg w st))" using assms(1) by simp
  then obtain uid r where "(p, uid, r, oc) \<in> set (carried_out (plan_users cfg w (find_users st)))"
    using in_trace_iff[OF c] assms(2) by blast
  then have "(p, uid, r, oc) \<in> set (plan_users cfg w (find_users st))"
    using set_carried by blast
  then show "selected st p" "oc = outcome_of cfg w (phoneNumber (st ! fst p)) p (rem_at st p)"
    by (auto simp: in_plan_users)
qed

lemma in_trace_I:
  assumes "db_configured cfg" "twilio_configured cfg"
    "process_due_once cfg w st = (st', tr, None)" "selected st p"
  shows "(p, outcome_of cfg w (phoneNumber (st ! fst p)) p (rem_at st p)) \<in> set tr"
proof -
  have nf: "\<not> find_raises w" using assms(1-3) by (auto simp: process_due_once_def split: if_splits)
  have "first_raised (plan_users cfg w (find_users st)) = None"
    using assms(1-3) nf by (simp add: process_due_once_plan)
  then have "carried_out (plan_users cfg w (find_users st)) = plan_users cfg w (find_users st)"
    by (rule carried_id)
  moreover have "(p, userId (st ! fst p), rem_at st p,
      outcome_of cfg w (phoneNumber (st ! fst p)) p (rem_at st p))
        \<in> set (plan_users cfg w (find_users st))"
    using assms(4) by (simp add: in_plan_users)
  moreover have "tr = fst (snd (process_due_once cfg w st))" using assms(3) by simp
  ultimately show ?thesis using in_trace_iff[OF assms(1,2) nf] by metis
qed


section \<open>What a store write changes\<close>

lemma first_index_Some_iff:
  "first_index P xs = Some i \<longleftrightarrow> i < length xs \<and> P (xs ! i) \<and> (\<forall>j<i. \<not> P (xs ! j))"
proof (induction xs arbitrary: i)
  case Nil
  then show ?case by simp
next
  case (Cons x xs)
  show ?case
  proof (cases "P x")
    case True
    then show ?thesis by (cases i) auto
  next
    case False
    show ?thesis
    proof (cases i)
      case 0
      then show ?thesis using False by auto
    next
      case (Suc k)
      have "(\<forall>j<Suc k. \<not> P ((x # xs) ! j)) \<longleftrightarrow> (\<forall>j<k. \<not> P (xs ! j))"
        using False by (auto simp: less_Suc_eq_0_disj)
      then show ?thesis using False Suc Cons.IH[of k] by auto
    qed
  qed
qed

lemma first_index_None_iff: "first_index P xs = None \<longleftrightarrow> (\<forall>x\<in>set xs. \<not> P x)"
  by (induction xs) auto

lemma length_update_first [simp]: "length (update_first P f xs) = length xs"
  by (induction xs) auto

lemma update_first_nth:
  "i < length xs \<Longrightarrow>
     update_first P f xs ! i = (if first_index P xs = Some i then f (xs ! i) else xs ! i)"
proof (induction xs arbitrary: i)
  case Nil
  then show ?case by simp
next
  case (Cons x xs)
  then show ?case by (cases i) auto
qed

lemma mark_target_Some_iff:
  "mark_target uid r st = Some q \<longleftrightarrow>
     first_index (doc_filter uid r) st = Some (fst q)
     \<and> first_index (elem_filter r) (reminders (st ! fst q)) = Some (snd q)"
  by (cases q) (auto simp: mark_target_def split: option.splits)

lemma mark_target_valid: "mark_target uid r st = Some q \<Longrightarrow> valid_pos st q"
  by (simp add: mark_target_Some_iff first_index_Some_iff valid_pos_def)

lemma length_update_one [simp]: "length (update_one uid r t st) = length st"
  by (simp add: update_one_def)

lemma update_one_nth:
  assumes "i < length st"
  shows "update_one uid r t st ! i =
     (if first_index (doc_filter uid r) st = Some i
      then (st ! i)\<lparr>reminders := update_first (elem_filter r) (\<lambda>e. e\<lparr>calledAt := Some t\<rparr>) (reminders (st ! i))\<rparr>
      else st ! i)"
  using assms by (simp add: update_one_def update_first_nth)

lemma update_one_doc:
  assumes "i < length st"
  shows "userId (update_one uid r t st ! i) = userId (st ! i)"
    and "phoneNumber (update_one uid r t st ! i) = phoneNumber (st ! i)"
    and "phoneRemindersEnabled (update_one uid r t st ! i) = phoneRemindersEnabled (st ! i)"
    and "length (reminders (update_one uid r t st ! i)) = length (reminders (st ! i))"
  using assms by (simp_all add: update_one_nth)

lemma valid_pos_update_one [simp]: "valid_pos (update_one uid r t st) q = valid_pos st q"
  by (auto simp: valid_pos_def update_one_doc)

lemma update_one_rem_at:
  assumes "valid_pos st q"
  shows "rem_at (update_one uid r t st) q =
     (if mark_target uid r st = Some q then (rem_at st q)\<lparr>calledAt := Some t\<rparr> else rem_at st q)"
proof -
  have i: "fst q < length st" and k: "snd q < length (reminders (st ! fst q))"
    using assms by (auto simp: valid_pos_def)
  show ?thesis
    using i k by (auto simp: rem_at_def update_one_nth update_first_nth mark_target_Some_iff)
qed

lemma forget_update_first:
  "map (\<lambda>r. r\<lparr>calledAt := None\<rparr>) (update_first P (\<lambda>e. e\<lparr>calledAt := Some t\<rparr>) rs)
     = map (\<lambda>r. r\<lparr>calledAt := None\<rparr>) rs"
  by (induction rs) auto

lemma forget_update_one [simp]: "forget (update_one uid r t st) = forget st"
proof -
  have "map (\<lambda>u. u\<lparr>reminders := map (\<lambda>r. r\<lparr>calledAt := None\<rparr>) (reminders u)\<rparr>)
          (update_first P (\<lambda>u. u\<lparr>reminders := update_first Q (\<lambda>e. e\<lparr>calledAt := Some t\<rparr>) (reminders u)\<rparr>) xs)
        = map (\<lambda>u. u\<lparr>reminders := map (\<lambda>r. r\<lparr>calledAt := None\<rparr>) (reminders u)\<rparr>) xs" for P Q xs
    by (induction xs) (auto simp: forget_update_first)
  then show ?thesis by (simp add: forget_def update_one_def)
qed

lemma forget_length: "forget a = forget b \<Longrightarrow> length a = length b"
  unfolding forget_def by (rule map_eq_imp_length_eq)

lemma forget_nth:
  assumes "forget a = forget b" "i < length a"
  shows "(a ! i)\<lparr>reminders := map (\<lambda>r. r\<lparr>calledAt := None\<rparr>) (reminders (a ! i))\<rparr>
       = (b ! i)\<lparr>reminders := map (\<lambda>r. r\<lparr>calledAt := None\<rparr>) (reminders (b ! i))\<rparr>"
    and "length a = length b"
proof -
  show l: "length a = length b" using assms(1) unfolding forget_def by (rule map_eq_imp_length_eq)
  have "forget a ! i = forget b ! i" using assms(1) by simp
  then show "(a ! i)\<lparr>reminders := map (\<lambda>r. r\<lparr>calledAt := None\<rparr>) (reminders (a ! i))\<rparr>
       = (b ! i)\<lparr>reminders := map (\<lambda>r. r\<lparr>calledAt := None\<rparr>) (reminders (b ! i))\<rparr>"
    using assms(2) l by (simp add: forget_def)
qed

lemma forget_doc:
  assumes "forget a = forget b" "i < length a"
  shows "userId (a ! i) = userId (b ! i)"
    and "phoneNumber (a ! i) = phoneNumber (b ! i)"
    and "phoneRemindersEnabled (a ! i) = phoneRemindersEnabled (b ! i)"
    and "map (\<lambda>r. r\<lparr>calledAt := None\<rparr>) (reminders (a ! i)) = map (\<lambda>r. r\<lparr>calledAt := None\<rparr>) (reminders (b ! i))"
proof -
  let ?f = "\<lambda>u. u\<lparr>reminders := map (\<lambda>r. r\<lparr>calledAt := None\<rparr>) (reminders u)\<rparr>"
  have e: "?f (a ! i) = ?f (b ! i)" using forget_nth(1)[OF assms] .
  show "userId (a ! i) = userId (b ! i)" using arg_cong[OF e, of userId] by simp
  show "phoneNumber (a ! i) = phoneNumber (b ! i)" using arg_cong[OF e, of phoneNumber] by simp
  show "phoneRemindersEnabled (a ! i) = phoneRemindersEnabled (b ! i)"
    using arg_cong[OF e, of phoneRemindersEnabled] by simp
  show "map (\<lambda>r. r\<lparr>calledAt := None\<rparr>) (reminders (a ! i)) = map (\<lambda>r. r\<lparr>calledAt := None\<rparr>) (reminders (b ! i))"
    using arg_cong[OF e, of reminders] by simp
qed

lemma forget_length_reminders:
  assumes "forget a = forget b" "i < length a"
  shows "length (reminders (a ! i)) = length (reminders (b ! i))"
  using forget_doc(4)[OF assms] by (rule map_eq_imp_length_eq)

lemma forget_valid_pos: "forget a = forget b \<Longrightarrow> valid_pos a q = valid_pos b q"
  using forget_length[of a b] forget_length_reminders[of a b "fst q"]
  by (auto simp: valid_pos_def)

lemma forget_rem_at:
  assumes "forget a = forget b" "valid_pos a q"
  shows "(rem_at a q)\<lparr>calledAt := None\<rparr> = (rem_at b q)\<lparr>calledAt := None\<rparr>"
proof -
  have i: "fst q < length a" and k: "snd q < length (reminders (a ! fst q))"
    using assms(2) by (auto simp: valid_pos_def)
  have k': "snd q < length (reminders (b ! fst q))"
    using k forget_length_reminders[OF assms(1) i] by simp
  have "map (\<lambda>r. r\<lparr>calledAt := None\<rparr>) (reminders (a ! fst q)) ! snd q
      = map (\<lambda>r. r\<lparr>calledAt := None\<rparr>) (reminders (b ! fst q)) ! snd q"
    using forget_doc(4)[OF assms(1) i] by simp
  then show ?thesis using k k' by (simp add: rem_at_def)
qed


lemma forget_rem_eq:
  assumes "forget a = forget b" "valid_pos a q" "calledAt (rem_at a q) = calledAt (rem_at b q)"
  shows "rem_at a q = rem_at b q"
proof -
  have "rem_at a q = (rem_at a q)\<lparr>calledAt := None\<rparr>\<lparr>calledAt := calledAt (rem_at a q)\<rparr>" by simp
  also have "\<dots> = (rem_at b q)\<lparr>calledAt := None\<rparr>\<lparr>calledAt := calledAt (rem_at b q)\<rparr>"
    using forget_rem_at[OF assms(1,2)] assms(3) by simp
  also have "\<dots> = rem_at b q" by simp
  finally show ?thesis .
qed

lemma forget_find_filter:
  assumes "forget a = forget b" "i < length a"
  shows "find_filter (a ! i) = find_filter (b ! i)"
  using forget_doc(2,3)[OF assms] by (simp add: find_filter_def)

lemma forget_selected: "forget a = forget b \<Longrightarrow> selected a q = selected b q"
  using forget_valid_pos[of a b q] forget_find_filter[of a b "fst q"]
  by (auto simp: selected_def valid_pos_def)

lemma doc_filter_iff:
  "doc_filter uid r u \<longleftrightarrow>
     userId u = uid \<and> (\<exists>k<length (reminders u). elem_filter r (reminders u ! k))"
proof -
  have "(\<exists>x\<in>set (reminders u). elem_filter r x)
      \<longleftrightarrow> (\<exists>k<length (reminders u). elem_filter r (reminders u ! k))"
    by (metis in_set_conv_nth)
  then show ?thesis by (simp add: doc_filter_def list_ex_iff)
qed

lemma elem_filter_matches: "userId u = uid \<Longrightarrow> elem_filter r e = matches_spec uid r u e"
  by (simp add: elem_filter_def matches_spec_def)

lemma mark_target_first_match:
  "mark_target uid r st = Some q \<longleftrightarrow>
     valid_pos st q \<and> matches_spec uid r (st ! fst q) (rem_at st q)
     \<and> (\<forall>q'. valid_pos st q' \<and> earlier q' q \<longrightarrow> \<not> matches_spec uid r (st ! fst q') (rem_at st q'))"
  (is "?L \<longleftrightarrow> ?V \<and> ?M \<and> ?E")
proof
  assume l: ?L
  then have d: "first_index (doc_filter uid r) st = Some (fst q)"
    and e: "first_index (elem_filter r) (reminders (st ! fst q)) = Some (snd q)"
    by (simp_all add: mark_target_Some_iff)
  have v: ?V using l by (rule mark_target_valid)
  have du: "doc_filter uid r (st ! fst q)" and dn: "\<forall>j<fst q. \<not> doc_filter uid r (st ! j)"
    using d by (simp_all add: first_index_Some_iff)
  have eu: "elem_filter r (rem_at st q)"
    and en: "\<forall>k<snd q. \<not> elem_filter r (reminders (st ! fst q) ! k)"
    using e by (simp_all add: first_index_Some_iff rem_at_def)
  have m: ?M using du eu by (simp add: doc_filter_iff matches_spec_def elem_filter_def)
  have "\<not> matches_spec uid r (st ! fst q') (rem_at st q')" if q': "valid_pos st q'" "earlier q' q" for q'
  proof (cases "fst q' < fst q")
    case True
    then have "\<not> doc_filter uid r (st ! fst q')" using dn by blast
    then show ?thesis using q'(1)
      by (auto simp: doc_filter_iff matches_spec_def elem_filter_def valid_pos_def rem_at_def)
  next
    case False
    then have f: "fst q' = fst q" and s: "snd q' < snd q" using q'(2) by (auto simp: earlier_def)
    then have "\<not> elem_filter r (rem_at st q')" using en by (simp add: rem_at_def)
    then show ?thesis by (auto simp: matches_spec_def elem_filter_def)
  qed
  then show "?V \<and> ?M \<and> ?E" using v m by blast
next
  assume r: "?V \<and> ?M \<and> ?E"
  then have i: "fst q < length st" and k: "snd q < length (reminders (st ! fst q))"
    by (auto simp: valid_pos_def)
  have uid: "userId (st ! fst q) = uid" and ef: "elem_filter r (rem_at st q)"
    using r by (auto simp: matches_spec_def elem_filter_def)
  have du: "doc_filter uid r (st ! fst q)"
    using uid ef k unfolding doc_filter_iff rem_at_def by blast
  have dn: "\<not> doc_filter uid r (st ! j)" if j: "j < fst q" for j
  proof
    assume "doc_filter uid r (st ! j)"
    then obtain k' where k': "userId (st ! j) = uid" "k' < length (reminders (st ! j))"
      "elem_filter r (reminders (st ! j) ! k')"
      unfolding doc_filter_iff by blast
    have "valid_pos st (j, k') \<and> earlier (j, k') q"
      using j i k'(2) by (simp add: valid_pos_def earlier_def)
    moreover have "matches_spec uid r (st ! fst (j, k')) (rem_at st (j, k'))"
      using k'(1,3) by (simp add: matches_spec_def elem_filter_def rem_at_def)
    ultimately show False using r by blast
  qed
  have en: "\<not> elem_filter r (reminders (st ! fst q) ! k')" if k': "k' < snd q" for k'
  proof
    assume a: "elem_filter r (reminders (st ! fst q) ! k')"
    have "valid_pos st (fst q, k') \<and> earlier (fst q, k') q"
      using i k k' by (simp add: valid_pos_def earlier_def)
    moreover have "matches_spec uid r (st ! fst (fst q, k')) (rem_at st (fst q, k'))"
      using a uid by (simp add: matches_spec_def elem_filter_def rem_at_def)
    ultimately show False using r by blast
  qed
  have "first_index (doc_filter uid r) st = Some (fst q)"
    using i du dn by (simp add: first_index_Some_iff)
  moreover have "first_index (elem_filter r) (reminders (st ! fst q)) = Some (snd q)"
    using k ef en by (simp add: first_index_Some_iff rem_at_def)
  ultimately show ?L by (simp add: mark_target_Some_iff)
qed

section \<open>The due window\<close>

lemmas micro_simps =
  to_microseconds_def ymd2ord_def days_before_year_def days_before_month_def is_leap_def
  datetime_now_def healthy_world_def clock_T_def instant_def

lemma parse_due_reminder:
  "try_parse_datetime (date due_reminder) (time due_reminder) = Some (instant 2024 5 1 9 29 59)"
  by (simp add: due_reminder_def new_reminder_def try_parse_datetime_def iso_simps instant_def)



lemma diff_due:
  "to_microseconds (datetime_now (healthy_world clock_T)) - to_microseconds (instant 2024 5 1 9 29 59) = 1000000"
  by (simp add: micro_simps)




lemma invoked_simps:
  "\<not> invoked NotDue" "\<not> invoked AlreadyCalled" "\<not> invoked Unparseable" "\<not> invoked (Raised x)"
  "invoked (Called a b)" "invoked (MarkFailed a b x)" "invoked (CallFailed a b x) \<longleftrightarrow> x = ProviderError"
  by (simp_all add: invoked_def)






lemma example_reminders_uncalled:
  "calledAt due_reminder = None" "calledAt expired_reminder = None"
  "calledAt future_reminder = None"
  by (simp_all add: due_reminder_def expired_reminder_def future_reminder_def new_reminder_def)




section \<open>Reminders already called\<close>

lemma forget_apply_entry [simp]: "forget (apply_entry w s en) = forget s"
  by (auto simp: apply_entry_def split: prod.splits outcome.splits)

lemma forget_foldl_apply [simp]: "forget (foldl (apply_entry w) s es) = forget s"
  by (induction es arbitrary: s) auto

lemma forget_pass: "forget (fst (process_due_once cfg w st)) = forget st"
  by (simp add: process_due_once_plan)

lemma valid_pos_pass: "valid_pos (fst (process_due_once cfg w st)) q = valid_pos st q"
  using forget_pass by (rule forget_valid_pos)

lemma apply_entry_keeps_called:
  assumes "valid_pos s p" "calledAt (rem_at s p) \<noteq> None"
  shows "calledAt (rem_at (apply_entry w s en) p) \<noteq> None"
  using assms by (auto simp: apply_entry_def update_one_rem_at split: prod.splits outcome.splits)

lemma foldl_keeps_called:
  assumes "valid_pos s p" "calledAt (rem_at s p) \<noteq> None"
  shows "calledAt (rem_at (foldl (apply_entry w) s es) p) \<noteq> None"
  using assms
proof (induction es arbitrary: s)
  case Nil
  then show ?case by simp
next
  case (Cons en es)
  have "valid_pos (apply_entry w s en) p"
    using Cons.prems(1) forget_valid_pos[OF forget_apply_entry] by blast
  then show ?case using Cons apply_entry_keeps_called by simp
qed

lemma pass_keeps_called:
  assumes "valid_pos st p" "calledAt (rem_at st p) \<noteq> None"
  shows "calledAt (rem_at (fst (process_due_once cfg w st)) p) \<noteq> None"
  using foldl_keeps_called[OF assms] assms(2) by (simp add: process_due_once_plan)

lemma pass_skips_called:
  assumes "calledAt (rem_at st p) \<noteq> None" "process_due_once cfg w st = (st', tr, e)"
    "(p, oc) \<in> set tr"
  shows "oc = AlreadyCalled"
  using in_trace_D(5)[OF assms(2,3)] assms(1) by (simp add: outcome_of_called)

text \<open>
  C2. A reminder whose \<open>calledAt\<close> is not null when a sequence of passes starts keeps a
  non-null \<open>calledAt\<close> after every pass of the sequence, however many there are, and
  whenever a pass comes to it, it takes the \<open>continue\<close> of line 137: the date and time
  are not parsed, the window is not tested and the provider is not invoked.
\<close>

theorem called_reminder_skipped:
  assumes "valid_pos st p" "calledAt (rem_at st p) \<noteq> None"
  shows "\<forall>(st', tr, e)\<in>set (scheduler_loop cfg ws st).
           valid_pos st' p \<and> calledAt (rem_at st' p) \<noteq> None
           \<and> (\<forall>oc. (p, oc) \<in> set tr \<longrightarrow> oc = AlreadyCalled \<and> \<not> invoked oc)"
  using assms
proof (induction ws arbitrary: st)
  case Nil
  then show ?case by simp
next
  case (Cons w ws)
  obtain st1 tr1 e1 where pass: "process_due_once cfg w st = (st1, tr1, e1)"
    by (cases "process_due_once cfg w st") auto
  have v: "valid_pos st1 p" using valid_pos_pass[of cfg w st p] pass Cons.prems(1) by simp
  have c: "calledAt (rem_at st1 p) \<noteq> None"
    using pass_keeps_called[OF Cons.prems, of cfg w] pass by simp
  have t: "\<forall>oc. (p, oc) \<in> set tr1 \<longrightarrow> oc = AlreadyCalled \<and> \<not> invoked oc"
    using pass_skips_called[OF Cons.prems(2) pass] invoked_simps(2) by blast
  show ?case using pass v c t Cons.IH[OF v c] by simp
qed

lemma user_c_fields:
  "reminders user_c = [called_reminder]" "find_filter user_c"
  by (simp_all add: user_c_def new_user_def find_filter_def ne_matches_def py_dict_def
      phone_condition_def)

lemma called_reminder_fields:
  "calledAt called_reminder = Some clock_T" "date called_reminder = date due_reminder"
  "time called_reminder = time due_reminder"
  by (simp_all add: called_reminder_def)

lemma offset_free_user_c: "offset_free [user_c]"
  by (simp add: offset_free_def user_c_fields local_or_unparseable_def called_reminder_fields
      parse_due_reminder instant_def)

theorem called_reminder_skipped_witness:
  "list_all (\<lambda>(st', tr, e). calledAt (rem_at st' (0, 0)) \<noteq> None
                \<and> list_all (\<lambda>(q, oc). q \<noteq> (0, 0) \<or> oc = AlreadyCalled) tr)
     (scheduler_loop default_config [healthy_world clock_T, healthy_world clock_T] [user_c])
   \<and> ((0, 0), AlreadyCalled)
        \<in> set (fst (snd (process_due_once default_config (healthy_world clock_T) [user_c])))"
proof -
  let ?w = "healthy_world clock_T"
  have v: "valid_pos [user_c] (0, 0)" by (simp add: valid_pos_def user_c_fields)
  have r: "rem_at [user_c] (0, 0) = called_reminder" by (simp add: rem_at_def user_c_fields)
  have c: "calledAt (rem_at [user_c] (0, 0)) \<noteq> None" by (simp add: r called_reminder_fields)
  have a: "list_all (\<lambda>(st', tr, e). calledAt (rem_at st' (0, 0)) \<noteq> None
                \<and> list_all (\<lambda>(q, oc). q \<noteq> (0, 0) \<or> oc = AlreadyCalled) tr)
     (scheduler_loop default_config [?w, ?w] [user_c])"
    using called_reminder_skipped [OF v c, of default_config "[?w, ?w]"]
    by (fastforce simp: list_all_iff)
  obtain st' tr e where pass: "process_due_once default_config ?w [user_c] = (st', tr, e)"
    by (cases "process_due_once default_config ?w [user_c]") auto
  have "\<not> find_raises ?w" by (simp add: healthy_world_def)
  then have e: "e = None"
    using pass_completes[OF offset_free_user_c, of ?w default_config] pass by simp
  have "selected [user_c] (0, 0)" using v by (simp add: selected_def user_c_fields)
  then have "((0, 0), outcome_of default_config ?w (phoneNumber ([user_c] ! fst (0, 0))) (0, 0)
      (rem_at [user_c] (0, 0))) \<in> set tr"
    using in_trace_I[of default_config ?w "[user_c]" st' tr "(0, 0)"] pass e
    by (simp add: default_config_def)
  then have "((0, 0), AlreadyCalled) \<in> set tr"
    using c by (simp add: outcome_of_called)
  then show ?thesis using a pass by simp
qed

section \<open>Failure isolation\<close>









lemma length_scheduler_loop [simp]: "length (scheduler_loop cfg ws st) = length ws"
  by (induction ws arbitrary: st) (auto split: prod.splits)


lemma due_reminder_message:
  "dispatch_message due_reminder = ''Reminder: pill at 09:29:59 on 2024-05-01.''"
  by (simp add: dispatch_message_def due_reminder_def new_reminder_def py_str_def)

lemma outcome_due_reminder:
  assumes "clock w = clock_T" "WINDOW_SECONDS cfg = 900"
  shows "outcome_of cfg w num p due_reminder = dispatch_outcome cfg w num p due_reminder"
proof -
  have "datetime_now w = datetime_now (healthy_world clock_T)"
    using assms(1) by (simp add: datetime_now_def healthy_world_def)
  then have "to_microseconds (datetime_now w) - to_microseconds (instant 2024 5 1 9 29 59) = 1000000"
    using diff_due by simp
  moreover have "tzinfo (instant 2024 5 1 9 29 59) = None" by (simp add: instant_def)
  ultimately show ?thesis
    using outcome_of_naive[OF example_reminders_uncalled(1) parse_due_reminder, of cfg w num p]
      assms(2)
    by (simp add: total_seconds_one)
qed





section \<open>Users without a number\<close>

lemma find_filter_iff:
  "find_filter u \<longleftrightarrow> phoneRemindersEnabled u \<and> phoneNumber u \<noteq> Some []"
  by (simp add: find_filter_def ne_matches_def py_dict_def phone_condition_def)

lemma invoked_outcome_of:
  assumes "invoked (outcome_of cfg w num p r)"
  shows "\<exists>msg. outcome_of cfg w num p r
            = CallFailed (normalize_e164 (DEFAULT_COUNTRY_CODE cfg) num) msg ProviderError
        \<or> outcome_of cfg w num p r
            = MarkFailed (normalize_e164 (DEFAULT_COUNTRY_CODE cfg) num) msg UpdateError
        \<or> outcome_of cfg w num p r = Called (normalize_e164 (DEFAULT_COUNTRY_CODE cfg) num) msg"
proof (cases "calledAt r = None")
  case False
  then show ?thesis using assms by (simp add: outcome_of_called invoked_simps)
next
  case True
  show ?thesis
  proof (cases "try_parse_datetime (date r) (time r)")
    case None
    then show ?thesis using True assms by (simp add: outcome_of_unparseable invoked_simps)
  next
    case (Some dt)
    show ?thesis
    proof (cases "tzinfo dt")
      case None
      then show ?thesis
        using True Some assms
        by (auto simp: outcome_of_naive invoked_simps dispatch_outcome_def Let_def
            split: if_splits)
    next
      case (Some off)
      then show ?thesis using True \<open>try_parse_datetime (date r) (time r) = Some dt\<close> assms
        by (simp add: outcome_of_aware invoked_simps)
    qed
  qed
qed

text \<open>
  C5 (as amended). In every scan pass no reminder is examined, and so no outbound call is
  attempted, for a user whose reminders are not enabled or whose stored phone number is
  the empty string: the candidate query does not return them. The dispatcher does not
  test the normalised number: when the provider is invoked for a reminder, the number it
  is given is \<open>normalize_e164\<close> of the stored number, whatever that is.
\<close>

theorem no_call_without_number:
  assumes "process_due_once cfg w st = (st', tr, e)" "(p, oc) \<in> set tr"
  shows "fst p < length st \<and> phoneRemindersEnabled (st ! fst p)
         \<and> phoneNumber (st ! fst p) \<noteq> Some []
         \<and> (invoked oc \<longrightarrow>
              (\<exists>msg. oc = CallFailed (normalize_e164 (DEFAULT_COUNTRY_CODE cfg)
                                        (phoneNumber (st ! fst p))) msg ProviderError
                    \<or> oc = MarkFailed (normalize_e164 (DEFAULT_COUNTRY_CODE cfg)
                                        (phoneNumber (st ! fst p))) msg UpdateError
                    \<or> oc = Called (normalize_e164 (DEFAULT_COUNTRY_CODE cfg)
                                    (phoneNumber (st ! fst p))) msg))"
proof -
  have sel: "selected st p"
    and oc: "oc = outcome_of cfg w (phoneNumber (st ! fst p)) p (rem_at st p)"
    using in_trace_D[OF assms] by simp_all
  show ?thesis
    using sel invoked_outcome_of[of cfg w "phoneNumber (st ! fst p)" p "rem_at st p"]
    unfolding oc by (simp add: selected_def valid_pos_def find_filter_iff)
qed

lemma find_users_single: "find_filter u \<Longrightarrow> find_users [u] = [(0, u)]"
  by (simp add: find_users_def)

lemma single_due_plan:
  assumes "reminders u = [due_reminder]" "find_filter u" "WINDOW_SECONDS cfg = 900"
    "clock w = clock_T"
  shows "carried_out (plan_users cfg w (find_users [u]))
     = [((0, 0), userId u, due_reminder, dispatch_outcome cfg w (phoneNumber u) (0, 0) due_reminder)]"
proof -
  have "plan_users cfg w (find_users [u])
     = [((0, 0), userId u, due_reminder, dispatch_outcome cfg w (phoneNumber u) (0, 0) due_reminder)]"
    using assms outcome_due_reminder[OF assms(4,3)]
    by (simp add: find_users_single plan_users_def)
  then show ?thesis by simp
qed

lemma single_due_pass:
  assumes "reminders u = [due_reminder]" "find_filter u" "WINDOW_SECONDS cfg = 900"
    "clock w = clock_T" "db_configured cfg" "twilio_configured cfg" "\<not> find_raises w"
  shows "fst (snd (process_due_once cfg w [u]))
     = [((0, 0), dispatch_outcome cfg w (phoneNumber u) (0, 0) due_reminder)]"
    and "fst (process_due_once cfg w [u])
     = apply_entry w [u] ((0, 0), userId u, due_reminder,
         dispatch_outcome cfg w (phoneNumber u) (0, 0) due_reminder)"
  using assms(5-7) single_due_plan[OF assms(1-4)]
  by (simp_all add: process_due_once_plan entry_event_def)

lemma healthy_world_fields:
  "clock (healthy_world t) = t" "\<not> find_raises (healthy_world t)"
  "\<not> call_raises (healthy_world t) p" "\<not> update_raises (healthy_world t) p"
  by (simp_all add: healthy_world_def)

lemma default_config_fields:
  "db_configured default_config" "twilio_configured default_config"
  "WINDOW_SECONDS default_config = 900" "DEFAULT_COUNTRY_CODE default_config = ''+91''"
  by (simp_all add: default_config_def)

lemma config_no_prefix_fields:
  "db_configured config_no_prefix" "twilio_configured config_no_prefix"
  "WINDOW_SECONDS config_no_prefix = 900" "DEFAULT_COUNTRY_CODE config_no_prefix = []"
  by (simp_all add: config_no_prefix_def default_config_def)

lemma user_nophone_fields:
  "reminders user_nophone = [due_reminder]" "find_filter user_nophone"
  "phoneNumber user_nophone = None"
  by (simp_all add: user_nophone_def new_user_def find_filter_iff)

lemma user_separator_fields:
  "reminders user_separator = [due_reminder]" "find_filter user_separator"
  "phoneNumber user_separator = Some ''-''"
  by (simp_all add: user_separator_def new_user_def find_filter_iff)

lemma user_one_fields:
  "reminders user_one = [due_reminder]" "find_filter user_one"
  "phoneNumber user_one = Some ''98765 43210''" "userId user_one = Some ''u1''"
  by (simp_all add: user_one_def new_user_def find_filter_iff)

lemma user_empty_fields:
  "reminders user_empty = [due_reminder]" "phoneNumber user_empty = Some []"
  by (simp_all add: user_empty_def new_user_def)

lemma normalize_examples:
  "normalize_e164 ''+91'' None = None"
  "normalize_e164 [] (Some ''-'') = Some []"
  "normalize_e164 ''+91'' (Some ''98765 43210'') = Some ''+919876543210''"
  by (simp_all add: normalize_e164_def strip_def isspace_def separators_def replace_char_def
      startswith_def)

theorem call_without_number:
  "fst (snd (process_due_once default_config (healthy_world clock_T) [user_nophone]))
     = [((0, 0), Called None ''Reminder: pill at 09:29:59 on 2024-05-01.'')]
   \<and> fst (snd (process_due_once config_no_prefix (healthy_world clock_T) [user_separator]))
     = [((0, 0), Called (Some []) ''Reminder: pill at 09:29:59 on 2024-05-01.'')]"
proof -
  have "fst (snd (process_due_once default_config (healthy_world clock_T) [user_nophone]))
     = [((0, 0), Called None ''Reminder: pill at 09:29:59 on 2024-05-01.'')]"
    using single_due_pass(1)[OF user_nophone_fields(1,2) default_config_fields(3)
        healthy_world_fields(1) default_config_fields(1,2) healthy_world_fields(2)]
    by (simp add: dispatch_outcome_def default_config_fields healthy_world_fields
        user_nophone_fields normalize_examples due_reminder_message)
  moreover have "fst (snd (process_due_once config_no_prefix (healthy_world clock_T) [user_separator]))
     = [((0, 0), Called (Some []) ''Reminder: pill at 09:29:59 on 2024-05-01.'')]"
    using single_due_pass(1)[OF user_separator_fields(1,2) config_no_prefix_fields(3)
        healthy_world_fields(1) config_no_prefix_fields(1,2) healthy_world_fields(2)]
    by (simp add: dispatch_outcome_def config_no_prefix_fields healthy_world_fields
        user_separator_fields normalize_examples due_reminder_message)
  ultimately show ?thesis by simp
qed

theorem no_call_without_number_witness:
  "fst (snd (process_due_once default_config (healthy_world clock_T) [user_empty])) = []
   \<and> phoneNumber ([user_one] ! 0) \<noteq> Some []
   \<and> fst (snd (process_due_once default_config (healthy_world clock_T) [user_one]))
        = [((0, 0), Called (normalize_e164 ''+91'' (phoneNumber ([user_one] ! 0)))
                      ''Reminder: pill at 09:29:59 on 2024-05-01.'')]"
proof -
  let ?w = "healthy_world clock_T"
  obtain st' tr e where pass: "process_due_once default_config ?w [user_empty] = (st', tr, e)"
    by (cases "process_due_once default_config ?w [user_empty]") auto
  have "tr = []"
  proof (rule ccontr)
    assume "tr \<noteq> []"
    then obtain p oc where m: "(p, oc) \<in> set tr" by (cases tr) auto
    have "fst p < length [user_empty] \<and> phoneNumber ([user_empty] ! fst p) \<noteq> Some []"
      using no_call_without_number [OF pass m] by blast
    then show False by (auto simp: user_empty_fields)
  qed
  then have a: "fst (snd (process_due_once default_config ?w [user_empty])) = []"
    using pass by simp
  obtain st1 tr1 e1 where pass1: "process_due_once default_config ?w [user_one] = (st1, tr1, e1)"
    by (cases "process_due_once default_config ?w [user_one]") auto
  have t1: "tr1 = [((0, 0), Called (Some ''+919876543210'') ''Reminder: pill at 09:29:59 on 2024-05-01.'')]"
    using single_due_pass(1)[OF user_one_fields(1,2) default_config_fields(3)
        healthy_world_fields(1) default_config_fields(1,2) healthy_world_fields(2)] pass1
    by (simp add: dispatch_outcome_def default_config_fields healthy_world_fields
        user_one_fields normalize_examples due_reminder_message)
  then have m1: "((0, 0), Called (Some ''+919876543210'')
      ''Reminder: pill at 09:29:59 on 2024-05-01.'') \<in> set tr1"
    by simp
  have b: "phoneNumber ([user_one] ! 0) \<noteq> Some []"
    using no_call_without_number [OF pass1 m1] by simp
  show ?thesis
    using a b t1 pass1 by (simp add: user_one_fields normalize_examples)
qed

section \<open>The mark-called write\<close>

text \<open>
  C9. The mark-called write stamps the first reminder, in the order of the stored
  documents and of their arrays, that matches: by the owning user id and the creation
  identifier when the reminder given to it carries one, else by the user id and the
  date, the time, the message and a null \<open>calledAt\<close>. It sets \<open>calledAt\<close> of that reminder
  to the time of the write and changes nothing else, and a whole pass changes nothing in
  the store but \<open>calledAt\<close> fields.
\<close>

theorem mark_called_first_match:
  assumes "mark_called w p uid r st = Inr st'"
  shows "forget st' = forget st
    \<and> (\<forall>q. valid_pos st q \<longrightarrow>
          rem_at st' q = (if mark_target uid r st = Some q
                          then (rem_at st q)\<lparr>calledAt := Some (datetime_now_utc w p)\<rparr>
                          else rem_at st q))
    \<and> (\<forall>q. mark_target uid r st = Some q \<longleftrightarrow>
          valid_pos st q \<and> matches_spec uid r (st ! fst q) (rem_at st q)
          \<and> (\<forall>q'. valid_pos st q' \<and> earlier q' q
                \<longrightarrow> \<not> matches_spec uid r (st ! fst q') (rem_at st q')))
    \<and> forget (fst (process_due_once cfg w st)) = forget st"
proof -
  have st': "st' = update_one uid r (datetime_now_utc w p) st"
    using assms by (simp add: mark_called_def split: if_splits)
  show ?thesis
    unfolding st' using mark_target_first_match[of uid r st]
    by (simp add: update_one_rem_at forget_pass)
qed

lemma twins_fields:
  "reminders user_twins = [first_twin, second_twin]" "userId user_twins = Some ''u6''"
  "createdAt first_twin = Some ''c1''" "createdAt second_twin = Some ''c2''"
  "calledAt first_twin = None" "calledAt second_twin = None"
  by (simp_all add: user_twins_def new_user_def first_twin_def second_twin_def new_reminder_def)

theorem mark_called_first_match_witness:
  "(case mark_called (healthy_world clock_T) (0, 1) (Some ''u6'') second_twin [user_twins] of
      Inl x \<Rightarrow> False
    | Inr st' \<Rightarrow>
        calledAt (rem_at st' (0, 0)) = None
        \<and> calledAt (rem_at st' (0, 1)) = Some (datetime_now_utc (healthy_world clock_T) (0, 1)))"
proof -
  let ?w = "healthy_world clock_T"
  obtain st' where m: "mark_called ?w (0, 1) (Some ''u6'') second_twin [user_twins] = Inr st'"
    by (simp add: mark_called_def healthy_world_fields)
  note t = mark_called_first_match [OF m, of default_config]
  have v: "valid_pos [user_twins] (0, 0)" "valid_pos [user_twins] (0, 1)"
    by (simp_all add: valid_pos_def twins_fields)
  have r: "rem_at [user_twins] (0, 0) = first_twin" "rem_at [user_twins] (0, 1) = second_twin"
    "rem_at [user_twins] (0, Suc 0) = second_twin"
    by (simp_all add: rem_at_def twins_fields)
  have ms: "matches_spec (Some ''u6'') second_twin ([user_twins] ! fst (0, 1)) (rem_at [user_twins] (0, 1))"
    by (simp add: matches_spec_def r twins_fields truthy_def)
  have no: "\<not> matches_spec (Some ''u6'') second_twin ([user_twins] ! fst q') (rem_at [user_twins] q')"
    if "valid_pos [user_twins] q'" "earlier q' (0, 1)" for q'
  proof -
    have "q' = (0, 0)" using that by (cases q') (auto simp: valid_pos_def earlier_def)
    then show ?thesis by (simp add: matches_spec_def r twins_fields truthy_def)
  qed
  have tg: "mark_target (Some ''u6'') second_twin [user_twins] = Some (0, 1)"
    using t v(2) ms no by blast
  have "rem_at st' (0, 0) = first_twin"
    using t v(1) tg r by simp
  moreover have "rem_at st' (0, 1) = second_twin\<lparr>calledAt := Some (datetime_now_utc ?w (0, 1))\<rparr>"
    using t v(2) tg r by simp
  ultimately show ?thesis using m by (simp add: twins_fields)
qed

section \<open>Reminders that are their own target\<close>















section \<open>At most one call\<close>



lemma length_stores [simp]: "length (stores cfg ws st) = Suc (length ws)"
  by (simp add: stores_def)

lemma length_traces [simp]: "length (traces cfg ws st) = length ws"
  by (simp add: traces_def)































section \<open>Retry after a failed call\<close>










end
